theory Spec2Isabelle
  imports Main "HOL-Library.Char_ord" "HOL-Library.List_Lexorder"
begin

section \<open>JavaScript values\<close>

text \<open>
  The helper \<^verbatim>\<open>hashObj\<close> of the api library takes a value of type \<^verbatim>\<open>unknown\<close>. The
  values modelled are the JSON-like ones an Expectation definition is made of:
  \<^verbatim>\<open>undefined\<close>, \<^verbatim>\<open>null\<close>, booleans, integer-valued numbers, strings, dense arrays
  and plain objects. An object is the list of its own enumerable properties in
  the order \<^verbatim>\<open>Object.keys\<close> lists them, so that two objects with the same properties in
  a different order are different values of the model. A string is a list of
  characters, compared character by character as JavaScript compares code units.
\<close>

datatype jsval =
    JUndefined
  | JNull
  | JBool bool
  | JNum int
  | JStr string
  | JArr "jsval list"
  | JObj "(string \<times> jsval) list"

text \<open>\<^verbatim>\<open>Object.keys(obj)\<close> and the property read \<^verbatim>\<open>obj[key]\<close> (\<^verbatim>\<open>undefined\<close> for a
  property the object does not have).\<close>

definition keys :: "(string \<times> jsval) list \<Rightarrow> string list" where
  "keys kvs = map fst kvs"

definition get :: "(string \<times> jsval) list \<Rightarrow> string \<Rightarrow> jsval" where
  "get kvs key = (case map_of kvs key of None \<Rightarrow> JUndefined | Some v \<Rightarrow> v)"

text \<open>A JavaScript object has each key once; the same holds inside its properties
  and inside the elements of an array.\<close>

function wellFormed :: "jsval \<Rightarrow> bool" where
  "wellFormed (JArr vs) = list_all wellFormed vs"
| "wellFormed (JObj kvs) =
     (distinct (keys kvs) \<and> list_all (\<lambda>key. wellFormed (get kvs key)) (keys kvs))"
| "wellFormed JUndefined = True"
| "wellFormed JNull = True"
| "wellFormed (JBool b) = True"
| "wellFormed (JNum n) = True"
| "wellFormed (JStr s) = True"
  by pat_completeness auto
termination
proof -
  have get_size: "size (get kvs key) \<le> size_list (size_prod (\<lambda>_. 0) size) kvs"
    if "key \<in> set (keys kvs)" for kvs key
  proof -
    from that obtain v where v: "map_of kvs key = Some v"
      by (cases "map_of kvs key") (auto simp: map_of_eq_None_iff keys_def)
    then have "(key, v) \<in> set kvs" by (rule map_of_SomeD)
    then have "size v \<le> size_list (size_prod (\<lambda>_. 0) size) kvs"
      by (induction kvs) auto
    with v show ?thesis by (simp add: get_def)
  qed
  show ?thesis
    by (relation "measure size")
       (auto simp: get_size size_list_estimation' less_Suc_eq_le)
qed

text \<open>\<^verbatim>\<open>strs.join(sep)\<close> on an array of strings.\<close>

fun join :: "string \<Rightarrow> string list \<Rightarrow> string" where
  "join sep [] = []"
| "join sep [s] = s"
| "join sep (s # t # ss) = s @ sep @ join sep (t # ss)"

text \<open>The decimal form of an integer-valued number, as \<^verbatim>\<open>n + ''\<close> gives it (for the
  numbers JavaScript prints in plain digits).\<close>

function decimalDigits :: "nat \<Rightarrow> string" where
  "decimalDigits n =
     (if n < 10 then [''0123456789'' ! n]
      else decimalDigits (n div 10) @ [''0123456789'' ! (n mod 10)])"
  by pat_completeness auto
termination
  by (relation "measure (\<lambda>n. n)") auto

definition numberToString :: "int \<Rightarrow> string" where
  "numberToString i =
     (if i < 0 then CHR ''-'' # decimalDigits (nat (- i)) else decimalDigits (nat i))"

text \<open>\<^verbatim>\<open>!obj\<close>: the falsy values are \<^verbatim>\<open>undefined\<close>, \<^verbatim>\<open>null\<close>, \<^verbatim>\<open>false\<close>, \<^verbatim>\<open>0\<close> and
  the empty string.\<close>

fun falsy :: "jsval \<Rightarrow> bool" where
  "falsy JUndefined = True"
| "falsy JNull = True"
| "falsy (JBool b) = (\<not> b)"
| "falsy (JNum n) = (n = 0)"
| "falsy (JStr s) = (s = [])"
| "falsy (JArr xs) = False"
| "falsy (JObj kvs) = False"

text \<open>The string conversion \<^verbatim>\<open>obj + ''\<close>.\<close>

fun toString :: "jsval \<Rightarrow> string" where
  "toString JUndefined = ''undefined''"
| "toString JNull = ''null''"
| "toString (JBool b) = (if b then ''true'' else ''false'')"
| "toString (JNum n) = numberToString n"
| "toString (JStr s) = s"
| "toString (JArr xs) =
     join '','' (map (\<lambda>x. if x = JUndefined \<or> x = JNull then [] else toString x) xs)"
| "toString (JObj kvs) = ''[object Object]''"

section \<open>The api library: hashObj\<close>

text \<open>
  \<^verbatim>\<open>hashObj\<close> (lib.ts). \<^verbatim>\<open>hash\<close> is SHA-1 in hexadecimal, from Node's crypto module; it
  is the parameter \<open>hash\<close> here, so that every statement holds for any string
  hash, a collision-free one included. The keys are sorted ascending by the
  comparator of the source, and only the values under them are hashed. The test
  \<^verbatim>\<open>if (!obj) return 'null'\<close> in the object branch is kept as the source has it.
\<close>

function hashObj :: "(string \<Rightarrow> string) \<Rightarrow> jsval \<Rightarrow> string" where
  "hashObj hash obj =
     (if falsy obj then ''''
      else case obj of
          JArr vs \<Rightarrow> hash (join '','' (map (hashObj hash) vs))
        | JObj kvs \<Rightarrow>
            if falsy obj then ''null''
            else hash (join ''|'' (map (\<lambda>key. hashObj hash (get kvs key)) (sort (keys kvs))))
        | _ \<Rightarrow> toString obj @ '''')"
  by pat_completeness auto
termination
proof -
  have get_size: "size (get kvs key) \<le> size_list (size_prod (\<lambda>_. 0) size) kvs"
    if "key \<in> set (keys kvs)" for kvs key
  proof -
    from that obtain v where v: "map_of kvs key = Some v"
      by (cases "map_of kvs key") (auto simp: map_of_eq_None_iff keys_def)
    then have "(key, v) \<in> set kvs" by (rule map_of_SomeD)
    then have "size v \<le> size_list (size_prod (\<lambda>_. 0) size) kvs"
      by (induction kvs) auto
    with v show ?thesis by (simp add: get_def)
  qed
  show ?thesis
    by (relation "measure (\<lambda>(hash, obj). size obj)")
       (auto simp: get_size size_list_estimation' less_Suc_eq_le)
qed

declare hashObj.simps [simp del]

text \<open>
  Two values hold the same key-to-value mappings and differ at most in the order of
  object keys, at any depth: arrays agree element by element, objects have the same
  set of keys and agree under every key, other values are equal.
\<close>

function sameUpToKeyOrder :: "jsval \<Rightarrow> jsval \<Rightarrow> bool" where
  "sameUpToKeyOrder (JArr xs) b =
     (case b of JArr ys \<Rightarrow> list_all2 sameUpToKeyOrder xs ys | _ \<Rightarrow> False)"
| "sameUpToKeyOrder (JObj kvs) b =
     (case b of
        JObj kvs' \<Rightarrow>
          set (keys kvs) = set (keys kvs') \<and>
          list_all (\<lambda>key. sameUpToKeyOrder (get kvs key) (get kvs' key)) (keys kvs)
      | _ \<Rightarrow> False)"
| "sameUpToKeyOrder JUndefined b = (b = JUndefined)"
| "sameUpToKeyOrder JNull b = (b = JNull)"
| "sameUpToKeyOrder (JBool x) b = (b = JBool x)"
| "sameUpToKeyOrder (JNum n) b = (b = JNum n)"
| "sameUpToKeyOrder (JStr s) b = (b = JStr s)"
  by pat_completeness auto
termination
proof -
  have get_size: "size (get kvs key) \<le> size_list (size_prod (\<lambda>_. 0) size) kvs"
    if "key \<in> set (keys kvs)" for kvs key
  proof -
    from that obtain v where v: "map_of kvs key = Some v"
      by (cases "map_of kvs key") (auto simp: map_of_eq_None_iff keys_def)
    then have "(key, v) \<in> set kvs" by (rule map_of_SomeD)
    then have "size v \<le> size_list (size_prod (\<lambda>_. 0) size) kvs"
      by (induction kvs) auto
    with v show ?thesis by (simp add: get_def)
  qed
  show ?thesis
    by (relation "measure (\<lambda>(a, b). size a)")
       (auto simp: get_size size_list_estimation' less_Suc_eq_le)
qed

section \<open>The api library: stringifyError\<close>

text \<open>
  A thrown value, as \<^verbatim>\<open>stringifyError\<close> reads it. To make a string of a value
  (\<^verbatim>\<open>`${v}`\<close>, \<^verbatim>\<open>', ' + v\<close>) can throw: a Symbol and an object with no \<^verbatim>\<open>toString\<close>
  (\<^verbatim>\<open>Object.create(null)\<close>) give a TypeError, and a \<^verbatim>\<open>toString\<close> or a getter of the
  value's own can throw what it likes. So a string form is a sum: \<open>Inr\<close> the string,
  \<open>Inl\<close> the value thrown instead.

  \<open>Primitive str json\<close> is a value that fails the test
  \<^verbatim>\<open>error && typeof error === 'object'\<close> (a string, a number, \<^verbatim>\<open>undefined\<close>, \<^verbatim>\<open>null\<close>, a
  Symbol, a function): \<open>str\<close> is its string form and \<open>json\<close> what \<^verbatim>\<open>JSON.stringify\<close>
  makes of it. \<open>ErrorObject str reason context stack json\<close> is an object: \<open>str\<close> is its
  string form; \<open>reason\<close>, \<open>context\<close> and \<open>stack\<close> stand for the properties of these
  names: \<open>None\<close> for a property that is missing or falsy, otherwise the string form of
  its value, \<open>Inl\<close> also when reading the property throws; \<open>json\<close> is the result of
  \<^verbatim>\<open>JSON.stringify(error)\<close>, \<open>None\<close> when it throws or gives no string (both end in
  the \<^verbatim>\<open>catch\<close> of \<^verbatim>\<open>stringifyError\<close>). A value gives the same string form each time
  it is asked.
\<close>

datatype thrown =
    Primitive "thrown + string" "string option"
  | ErrorObject "thrown + string" "(thrown + string) option" "(thrown + string) option"
      "(thrown + string) option" "string option"

fun templateString :: "thrown \<Rightarrow> thrown + string" where
  "templateString (Primitive str json) = str"
| "templateString (ErrorObject str r c s json) = str"

fun reasonOf :: "thrown \<Rightarrow> (thrown + string) option" where
  "reasonOf (Primitive str json) = None"
| "reasonOf (ErrorObject str r c s json) = r"

fun contextOf :: "thrown \<Rightarrow> (thrown + string) option" where
  "contextOf (Primitive str json) = None"
| "contextOf (ErrorObject str r c s json) = c"

fun stackOf :: "thrown \<Rightarrow> (thrown + string) option" where
  "stackOf (Primitive str json) = None"
| "stackOf (ErrorObject str r c s json) = s"

fun JSON_stringify :: "thrown \<Rightarrow> string option" where
  "JSON_stringify (Primitive str json) = json"
| "JSON_stringify (ErrorObject str r c s json) = json"

text \<open>One step \<^verbatim>\<open>if (error && typeof error === 'object' && error.p) str = ...\<close> of
  \<^verbatim>\<open>stringifyError\<close>: \<open>p\<close> is the property as \<open>reasonOf\<close>, \<open>contextOf\<close> and \<open>stackOf\<close>
  give it (\<open>None\<close> for a value that is no object), \<open>f\<close> makes the new \<^verbatim>\<open>str\<close> of the
  property's string form.\<close>

fun withProperty ::
  "(thrown + string) option \<Rightarrow> (string \<Rightarrow> string) \<Rightarrow> string \<Rightarrow> thrown + string" where
  "withProperty None f str = Inr str"
| "withProperty (Some (Inl e)) f str = Inl e"
| "withProperty (Some (Inr v)) f str = Inr (f v)"

text \<open>\<^verbatim>\<open>stringifyError\<close> (lib.ts) in two parts: the value of \<^verbatim>\<open>str\<close> when it reaches
  its last test \<^verbatim>\<open>str === '[object Object]'\<close>, and the result, which is that string
  or the fallback: the JSON form, cut at 200 characters. Nothing before the last test is
  inside a \<^verbatim>\<open>try\<close>: what a string form throws, \<^verbatim>\<open>stringifyError\<close> throws.\<close>

definition stringifyError_str :: "thrown \<Rightarrow> bool \<Rightarrow> thrown + string" where
  "stringifyError_str error noStack =
     (case templateString error of
        Inl e \<Rightarrow> Inl e
      | Inr str0 \<Rightarrow>
          (case withProperty (reasonOf error) (\<lambda>r. r) str0 of
             Inl e \<Rightarrow> Inl e
           | Inr str1 \<Rightarrow>
               (case withProperty (contextOf error) (\<lambda>c. str1 @ '', Context: '' @ c) str1 of
                  Inl e \<Rightarrow> Inl e
                | Inr str2 \<Rightarrow>
                    if \<not> noStack
                    then withProperty (stackOf error) (\<lambda>s. str2 @ '', '' @ s) str2
                    else Inr str2)))"

definition stringifyError :: "thrown \<Rightarrow> bool \<Rightarrow> thrown + string" where
  "stringifyError error noStack =
     (case stringifyError_str error noStack of
        Inl e \<Rightarrow> Inl e
      | Inr str \<Rightarrow>
          if str = ''[object Object]'' then
            (case JSON_stringify error of
               Some json \<Rightarrow> Inr (if length json > 200 then take 200 json @ ''...'' else json)
             | None \<Rightarrow> Inr ''[Error in stringifyError: Failed to stringify]'')
          else Inr str)"

section \<open>Tracked expectations\<close>

datatype WorkStatusState =
  NEW | WAITING | READY | WORKING | FULFILLED | REMOVED | RESTARTED | ABORTED

record Reason =
  user :: string
  tech :: string

text \<open>Modelled from the spec: the Expectation type is declared outside src/. Of the
  record of spec section 3 the fields that identify an Expectation and order its
  evaluation are kept; the evaluation of the WAITING state only hands the Expectation
  to the worker.\<close>

record Expectation =
  expectationId :: string
  priority :: int
  contentVersionHash :: string
  dependsOnFulfilled :: "string list"
  triggerByFulfilledIds :: "string list"

text \<open>Modelled from the spec: \<^verbatim>\<open>TrackedExpectation['status']\<close> is declared outside
  src/; spec section 3 gives its four optional fields.\<close>

record ExpectationStatus =
  sourceExists :: "bool option"
  targetExists :: "bool option"
  workProgress :: "nat option"
  actualVersionHash :: "string option"

text \<open>Modelled from the spec: the replies of the worker (spec section 6), declared
  outside src/. The fields \<^verbatim>\<open>reason\<close>, \<^verbatim>\<open>actualVersionHash\<close> and \<^verbatim>\<open>sourceExists\<close>
  of a reply carry the reply's name, since a record field is a constant of the
  theory.\<close>

record ReturnTypeIsExpectationFullfilled =
  fulfilled :: bool
  fulfilled_reason :: Reason
  fulfilled_actualVersionHash :: "string option"

record ReturnTypeIsExpectationReadyToStartWorkingOn =
  ready :: bool
  isWaitingForAnother :: "bool option"
  ready_sourceExists :: "bool option"
  ready_reason :: Reason

text \<open>Modelled from the spec: the worker's API (spec section 6) is declared outside src/.
  Of its calls the evaluation of the WAITING state makes this one itself; a call
  returns its reply or throws.\<close>

record WorkerAgentAPI =
  isExpectationFullfilled :: "Expectation \<Rightarrow> bool \<Rightarrow> thrown + ReturnTypeIsExpectationFullfilled"

text \<open>Modelled from the spec: the tracked expectation and its session are declared
  outside src/. \<^verbatim>\<open>session.assignedWorker\<close> holds the worker's \<^verbatim>\<open>id\<close> and its API, as
  waiting.ts reads them; the session has the three optional fields of spec section 3;
  of the fields that section gives a tracked expectation, the record keeps those that
  the evaluation of the WAITING state and the tracker's update read or write.\<close>

record AssignedWorker =
  workerId :: string
  worker :: WorkerAgentAPI

record ExpectationStateHandlerSession =
  assignedWorker :: "AssignedWorker option"
  triggerOtherExpectationsAgain :: "bool option"
  expectationCanBeRemoved :: "bool option"

record TrackedExpectation =
  exp :: Expectation
  state :: WorkStatusState
  reason :: Reason
  status :: ExpectationStatus
  session :: "ExpectationStateHandlerSession option"

text \<open>The argument of \<^verbatim>\<open>tracker.updateTrackedExpectationStatus\<close>, as waiting.ts builds
  it: each of \<^verbatim>\<open>state\<close>, \<^verbatim>\<open>reason\<close>, \<^verbatim>\<open>status\<close> (a partial status) and \<^verbatim>\<open>isError\<close> is
  given or left out.\<close>

record StatusUpdate =
  upd_state :: "WorkStatusState option"
  upd_reason :: "Reason option"
  upd_status :: "ExpectationStatus option"
  upd_isError :: "bool option"

text \<open>The calls an evaluation makes to its collaborators, in the order it makes
  them.\<close>

datatype call =
    AssignWorkerToSession
  | IsExpectationFullfilled string
  | IsExpectationReadyToStartWorkingOn string
  | UpdateTrackedExpectationStatus StatusUpdate
  | OnExpectationFullfilled
  | NoWorkerAssigned
  | LoggerWarn string

text \<open>The calls that reach a worker: \<^verbatim>\<open>worker.isExpectationFullfilled\<close>, and
  \<^verbatim>\<open>tracker.isExpectationReadyToStartWorkingOn\<close>, which is handed the worker to ask.\<close>

fun isWorkerCall :: "call \<Rightarrow> bool" where
  "isWorkerCall (IsExpectationFullfilled w) = True"
| "isWorkerCall (IsExpectationReadyToStartWorkingOn w) = True"
| "isWorkerCall c = False"

text \<open>
  The parts of the manager and of the tracker that are not under src/ and whose
  results the evaluation reads are parameters: the worker that
  \<^verbatim>\<open>manager.assignWorkerToSession\<close> leaves in \<^verbatim>\<open>session.assignedWorker\<close> (none when
  no worker can be assigned), the reply of \<^verbatim>\<open>tracker.isExpectationReadyToStartWorkingOn\<close>
  (or what it throws), whether \<^verbatim>\<open>tracker.onExpectationFullfilled\<close> triggered
  something, and the reason \<^verbatim>\<open>tracker.noWorkerAssigned\<close> records.
\<close>

record ExpectationManager =
  assignWorkerToSession :: "TrackedExpectation \<Rightarrow> AssignedWorker option"

record ExpectationTracker =
  isExpectationReadyToStartWorkingOn ::
    "WorkerAgentAPI \<Rightarrow> TrackedExpectation \<Rightarrow> thrown + ReturnTypeIsExpectationReadyToStartWorkingOn"
  onExpectationFullfilled :: "TrackedExpectation \<Rightarrow> bool"
  noWorkerReason :: "TrackedExpectation \<Rightarrow> Reason"

record EvaluateContext =
  manager :: ExpectationManager
  tracker :: ExpectationTracker
  trackedExp :: TrackedExpectation

text \<open>Modelled from the spec: \<^verbatim>\<open>tracker.updateTrackedExpectationStatus\<close> is not under
  src/. It sets the state and the reason that the update gives and extends the
  status with the fields the update's partial status defines; what the update leaves
  out stays as it is.\<close>

definition mergeStatus :: "ExpectationStatus \<Rightarrow> ExpectationStatus \<Rightarrow> ExpectationStatus" where
  "mergeStatus old new =
     \<lparr> sourceExists = (case sourceExists new of Some v \<Rightarrow> Some v | None \<Rightarrow> sourceExists old),
       targetExists = (case targetExists new of Some v \<Rightarrow> Some v | None \<Rightarrow> targetExists old),
       workProgress = (case workProgress new of Some v \<Rightarrow> Some v | None \<Rightarrow> workProgress old),
       actualVersionHash =
         (case actualVersionHash new of Some v \<Rightarrow> Some v | None \<Rightarrow> actualVersionHash old) \<rparr>"

definition updateTrackedExpectationStatus ::
  "TrackedExpectation \<Rightarrow> StatusUpdate \<Rightarrow> TrackedExpectation" where
  "updateTrackedExpectationStatus te upd =
     te\<lparr> state := (case upd_state upd of Some s \<Rightarrow> s | None \<Rightarrow> state te),
         reason := (case upd_reason upd of Some r \<Rightarrow> r | None \<Rightarrow> reason te),
         status := (case upd_status upd of Some s \<Rightarrow> mergeStatus (status te) s
                    | None \<Rightarrow> status te) \<rparr>"

text \<open>Modelled from the spec: \<^verbatim>\<open>tracker.noWorkerAssigned\<close> is not under src/. The
  transition table of spec section 4.2 has it keep the state and record a reason.\<close>

definition noWorkerAssigned :: "ExpectationTracker \<Rightarrow> TrackedExpectation \<Rightarrow> TrackedExpectation" where
  "noWorkerAssigned tr te =
     updateTrackedExpectationStatus te
       \<lparr> upd_state = None, upd_reason = Some (noWorkerReason tr te),
         upd_status = None, upd_isError = None \<rparr>"

section \<open>Evaluation of the WAITING state\<close>

text \<open>Modelled from the spec: \<^verbatim>\<open>assertState\<close> is not under src/. The rules of the
  WAITING state apply to a tracked expectation in that state (spec section 4.2); given
  one in another state, \<^verbatim>\<open>assertState\<close> throws and the evaluation does nothing else.

  The other exception that escapes the evaluation is one thrown inside its \<^verbatim>\<open>catch\<close>:
  \<open>ThrownInCatch e te calls\<close> is the value thrown, the tracked expectation as the
  evaluation leaves it, and the calls made until then.\<close>

datatype escaped =
    AssertStateFailed WorkStatusState WorkStatusState
  | ThrownInCatch thrown TrackedExpectation "call list"

definition emptySession :: ExpectationStateHandlerSession where
  "emptySession =
     \<lparr> assignedWorker = None, triggerOtherExpectationsAgain = None,
       expectationCanBeRemoved = None \<rparr>"

definition emptyStatus :: ExpectationStatus where
  "emptyStatus =
     \<lparr> sourceExists = None, targetExists = None, workProgress = None,
       actualVersionHash = None \<rparr>"

text \<open>\<^verbatim>\<open>if (!trackedExp.session) trackedExp.session = {}\<close>\<close>

definition ensureSession :: "TrackedExpectation \<Rightarrow> TrackedExpectation" where
  "ensureSession te =
     (case session te of None \<Rightarrow> te\<lparr> session := Some emptySession \<rparr> | Some s \<Rightarrow> te)"

definition updateSession ::
  "(ExpectationStateHandlerSession \<Rightarrow> ExpectationStateHandlerSession) \<Rightarrow>
   TrackedExpectation \<Rightarrow> TrackedExpectation" where
  "updateSession f te = te\<lparr> session := map_option f (session te) \<rparr>"

text \<open>The effect of \<^verbatim>\<open>manager.assignWorkerToSession\<close> on the session: the worker it
  assigned, or none.\<close>

definition setAssignedWorker :: "AssignedWorker option \<Rightarrow> TrackedExpectation \<Rightarrow> TrackedExpectation" where
  "setAssignedWorker w te = updateSession (\<lambda>s. s\<lparr> assignedWorker := w \<rparr>) te"

text \<open>The tracked expectation as the \<^verbatim>\<open>try\<close> block finds it: with a session, and
  the worker \<open>aw\<close> assigned in it.\<close>

definition withAssignedWorker :: "AssignedWorker \<Rightarrow> TrackedExpectation \<Rightarrow> TrackedExpectation" where
  "withAssignedWorker aw te = setAssignedWorker (Some aw) (ensureSession te)"

definition sessionAssignedWorker :: "TrackedExpectation \<Rightarrow> AssignedWorker option" where
  "sessionAssignedWorker te = (case session te of None \<Rightarrow> None | Some s \<Rightarrow> assignedWorker s)"

definition sessionTriggerAgain :: "TrackedExpectation \<Rightarrow> bool option" where
  "sessionTriggerAgain te =
     (case session te of None \<Rightarrow> None | Some s \<Rightarrow> triggerOtherExpectationsAgain s)"

text \<open>The body of the \<^verbatim>\<open>try\<close> (waiting.ts, lines 26 to 77): the tracked expectation
  it leaves, or the value thrown, with the calls made. A call that throws does so
  before the tracked expectation is written to.\<close>

definition tryBlock ::
  "EvaluateContext \<Rightarrow> TrackedExpectation \<Rightarrow> AssignedWorker \<Rightarrow>
   (thrown + TrackedExpectation) \<times> call list" where
  "tryBlock ctx te aw =
     (case isExpectationFullfilled (worker aw) (exp te) False of
        Inl error \<Rightarrow> (Inl error, [IsExpectationFullfilled (workerId aw)])
      | Inr fulfilled_reply \<Rightarrow>
          if fulfilled fulfilled_reply then
            let upd = \<lparr> upd_state = Some FULFILLED, upd_reason = None,
                        upd_status = None, upd_isError = None \<rparr>;
                te1 = updateTrackedExpectationStatus te upd;
                te2 = (if onExpectationFullfilled (tracker ctx) te1
                       then updateSession (\<lambda>s. s\<lparr> triggerOtherExpectationsAgain := Some True \<rparr>) te1
                       else te1)
            in (Inr te2,
                [IsExpectationFullfilled (workerId aw), UpdateTrackedExpectationStatus upd,
                 OnExpectationFullfilled])
          else
            (case isExpectationReadyToStartWorkingOn (tracker ctx) (worker aw) te of
               Inl error \<Rightarrow>
                 (Inl error,
                  [IsExpectationFullfilled (workerId aw),
                   IsExpectationReadyToStartWorkingOn (workerId aw)])
             | Inr readyToStart \<Rightarrow>
                 let newStatus =
                       (case ready_sourceExists readyToStart of
                          Some v \<Rightarrow> emptyStatus\<lparr> sourceExists := Some v \<rparr>
                        | None \<Rightarrow> emptyStatus);
                     upd =
                       (if ready readyToStart then
                          \<lparr> upd_state = Some READY,
                            upd_reason = Some
                              \<lparr> user = ''About to start working..'',
                                tech = ''About to start, was not fulfilled: '' @
                                       tech (fulfilled_reason fulfilled_reply) \<rparr>,
                            upd_status = Some newStatus, upd_isError = None \<rparr>
                        else if isWaitingForAnother readyToStart = Some True then
                          \<lparr> upd_state = None, upd_reason = Some (ready_reason readyToStart),
                            upd_status = Some newStatus, upd_isError = None \<rparr>
                        else
                          \<lparr> upd_state = Some NEW, upd_reason = Some (ready_reason readyToStart),
                            upd_status = Some newStatus, upd_isError = None \<rparr>)
                 in (Inr (updateTrackedExpectationStatus te upd),
                     [IsExpectationFullfilled (workerId aw),
                      IsExpectationReadyToStartWorkingOn (workerId aw),
                      UpdateTrackedExpectationStatus upd])))"

text \<open>The \<^verbatim>\<open>catch\<close> (lines 78 to 90). It calls \<^verbatim>\<open>stringifyError(error)\<close> twice, first
  for the argument of \<^verbatim>\<open>logger.warn\<close> (line 80), outside any \<^verbatim>\<open>try\<close>: when that call
  throws, the \<^verbatim>\<open>catch\<close> throws the same, before it has logged or updated anything.
  When it returns, so does the second call (line 86), with the same string.\<close>

definition catchBlock ::
  "TrackedExpectation \<Rightarrow> AssignedWorker \<Rightarrow> thrown \<Rightarrow>
   (thrown + TrackedExpectation) \<times> call list" where
  "catchBlock te aw error =
     (case stringifyError error False of
        Inl e \<Rightarrow> (Inl e, [])
      | Inr summary \<Rightarrow>
          let upd = \<lparr> upd_state = Some NEW,
                      upd_reason = Some
                        \<lparr> user = ''Restarting due to error'',
                          tech = ''Error from worker '' @ workerId aw @ '': '' @ [CHR 0x22] @
                                 summary @ [CHR 0x22] \<rparr>,
                      upd_status = None, upd_isError = Some True \<rparr>
          in (Inr (updateTrackedExpectationStatus te upd),
              [LoggerWarn (''Error in WAITING: '' @ summary),
               UpdateTrackedExpectationStatus upd]))"

definition evaluateExpectationStateWaiting ::
  "EvaluateContext \<Rightarrow> escaped + TrackedExpectation \<times> call list" where
  "evaluateExpectationStateWaiting ctx =
     (if state (trackedExp ctx) \<noteq> WAITING
      then Inl (AssertStateFailed (state (trackedExp ctx)) WAITING)
      else
        let te0 = ensureSession (trackedExp ctx);
            te = setAssignedWorker (assignWorkerToSession (manager ctx) te0) te0
        in case sessionAssignedWorker te of
             Some aw \<Rightarrow>
               (case tryBlock ctx te aw of
                  (Inr te', calls) \<Rightarrow> Inr (te', AssignWorkerToSession # calls)
                | (Inl error, calls) \<Rightarrow>
                    (case catchBlock te aw error of
                       (Inr te', calls') \<Rightarrow> Inr (te', AssignWorkerToSession # calls @ calls')
                     | (Inl e, calls') \<Rightarrow>
                         Inl (ThrownInCatch e te (AssignWorkerToSession # calls @ calls'))))
           | None \<Rightarrow>
               Inr (noWorkerAssigned (tracker ctx) te, [AssignWorkerToSession, NoWorkerAssigned]))"

section \<open>The api library: deferGets\<close>

text \<open>
  \<^verbatim>\<open>deferGets(fcn)\<close> keeps a map \<^verbatim>\<open>defers\<close> from a group id to an array of waiters,
  the \<^verbatim>\<open>{resolve, reject}\<close> pairs of the promises it has handed out. The array a call
  creates is shared: the map holds it, and the callbacks on \<^verbatim>\<open>fcn\<close>'s promise hold it
  as \<^verbatim>\<open>newWaiting\<close>. The model keeps the arrays in a store, by address, so that a push
  through the map is seen by the callbacks. A promise handed to a caller is a number;
  so is a call of \<^verbatim>\<open>fcn\<close>, by its position among the calls made. \<^verbatim>\<open>fcn\<close> returns a
  promise, as its type says: a call of it does not throw.
\<close>

datatype ('r, 'e) settled = Resolved 'r | Rejected 'e

text \<open>A call of \<^verbatim>\<open>fcn\<close>: its arguments, the \<^verbatim>\<open>groupId\<close> and the \<^verbatim>\<open>newWaiting\<close> array
  its callbacks closed over, and whether its promise is still pending.\<close>

record 'a invocation =
  inv_args :: 'a
  inv_groupId :: string
  inv_newWaiting :: nat
  inv_pending :: bool

record ('a, 'r, 'e) deferGetsState =
  arrays :: "nat \<Rightarrow> nat list"
  nextArray :: nat
  defers :: "string \<Rightarrow> nat option"
  invocations :: "'a invocation list"
  promises :: "nat \<Rightarrow> ('r, 'e) settled option"
  nextPromise :: nat

definition initialState :: "('a, 'r, 'e) deferGetsState" where
  "initialState =
     \<lparr> arrays = (\<lambda>a. []), nextArray = 0, defers = (\<lambda>g. None), invocations = [],
       promises = (\<lambda>p. None), nextPromise = 0 \<rparr>"

text \<open>The wrapper \<^verbatim>\<open>(groupId, ...args) => new Promise(...)\<close>: the promise it returns and
  the state it leaves. The executor runs at once: it pushes the new promise's waiter
  on the array the map has for the group, or makes an array, stores it in the map and
  calls \<^verbatim>\<open>fcn\<close>.\<close>

definition wrapper ::
  "string \<Rightarrow> 'a \<Rightarrow> ('a, 'r, 'e) deferGetsState \<Rightarrow> nat \<times> ('a, 'r, 'e) deferGetsState" where
  "wrapper groupId args s =
     (let p = nextPromise s;
          s1 = s\<lparr> promises := (promises s)(p := None), nextPromise := Suc p \<rparr>
      in case defers s groupId of
           Some waiting \<Rightarrow>
             (p, s1\<lparr> arrays := (arrays s)(waiting := arrays s waiting @ [p]) \<rparr>)
         | None \<Rightarrow>
             let newWaiting = nextArray s
             in (p, s1\<lparr> arrays := (arrays s)(newWaiting := [p]),
                        nextArray := Suc newWaiting,
                        defers := (defers s)(groupId := Some newWaiting),
                        invocations := invocations s @
                          [\<lparr> inv_args = args, inv_groupId = groupId,
                             inv_newWaiting = newWaiting, inv_pending = True \<rparr>] \<rparr>))"

text \<open>\<^verbatim>\<open>w.resolve(result)\<close> or \<^verbatim>\<open>w.reject(err)\<close>: a promise that is settled stays as it
  is.\<close>

definition settlePromise ::
  "('r, 'e) settled \<Rightarrow> nat \<Rightarrow> (nat \<Rightarrow> ('r, 'e) settled option) \<Rightarrow> nat \<Rightarrow> ('r, 'e) settled option" where
  "settlePromise outcome w ps = (if ps w = None then ps(w := Some outcome) else ps)"

text \<open>The callbacks on the promise of the \<open>i\<close>-th call of \<^verbatim>\<open>fcn\<close>, run when it settles
  (\<^verbatim>\<open>.then\<close> when it resolves, \<^verbatim>\<open>.catch\<close> when it rejects): delete the group from the
  map, then settle every waiter of \<^verbatim>\<open>newWaiting\<close>. A promise settles once.\<close>

definition settle ::
  "nat \<Rightarrow> ('r, 'e) settled \<Rightarrow> ('a, 'r, 'e) deferGetsState \<Rightarrow> ('a, 'r, 'e) deferGetsState" where
  "settle i outcome s =
     (if i < length (invocations s) \<and> inv_pending (invocations s ! i) then
        let inv = invocations s ! i
        in s\<lparr> defers := (defers s)(inv_groupId inv := None),
               promises := fold (settlePromise outcome) (arrays s (inv_newWaiting inv)) (promises s),
               invocations := (invocations s)[i := inv\<lparr> inv_pending := False \<rparr>] \<rparr>
      else s)"

text \<open>What happens to a wrapper over time: calls of it, and the promises of \<^verbatim>\<open>fcn\<close>
  settling, in any order.\<close>

datatype ('a, 'r, 'e) event = Call string 'a | Settle nat "('r, 'e) settled"

fun step :: "('a, 'r, 'e) event \<Rightarrow> ('a, 'r, 'e) deferGetsState \<Rightarrow> ('a, 'r, 'e) deferGetsState" where
  "step (Call groupId args) s = snd (wrapper groupId args s)"
| "step (Settle i outcome) s = settle i outcome s"

definition run :: "('a, 'r, 'e) event list \<Rightarrow> ('a, 'r, 'e) deferGetsState \<Rightarrow> ('a, 'r, 'e) deferGetsState" where
  "run evs s = fold step evs s"

fun isSettleOf :: "nat \<Rightarrow> ('a, 'r, 'e) event \<Rightarrow> bool" where
  "isSettleOf i (Settle j outcome) = (i = j)"
| "isSettleOf i (Call groupId args) = False"

text \<open>The \<open>i\<close>-th call of \<^verbatim>\<open>fcn\<close> was made for the group and its promise is
  pending: a call with this group id is in flight.\<close>

definition inFlight :: "('a, 'r, 'e) deferGetsState \<Rightarrow> nat \<Rightarrow> string \<Rightarrow> bool" where
  "inFlight s i groupId \<longleftrightarrow>
     i < length (invocations s) \<and> inv_pending (invocations s ! i) \<and>
     inv_groupId (invocations s ! i) = groupId"

text \<open>The invariant of the states a wrapper reaches: the map holds the array of every
  pending call of \<^verbatim>\<open>fcn\<close>; the arrays of the calls are allocated and differ from call
  to call; a waiter is a promise handed out, sits in one array, and is pending as long
  as the call it waits for is.\<close>

definition invar :: "('a, 'r, 'e) deferGetsState \<Rightarrow> bool" where
  "invar s \<longleftrightarrow>
     (\<forall>i < length (invocations s). inv_pending (invocations s ! i) \<longrightarrow>
        defers s (inv_groupId (invocations s ! i)) = Some (inv_newWaiting (invocations s ! i))) \<and>
     (\<forall>i < length (invocations s). inv_newWaiting (invocations s ! i) < nextArray s) \<and>
     (\<forall>i < length (invocations s). \<forall>j < length (invocations s).
        inv_newWaiting (invocations s ! i) = inv_newWaiting (invocations s ! j) \<longrightarrow> i = j) \<and>
     (\<forall>a w. w \<in> set (arrays s a) \<longrightarrow> w < nextPromise s) \<and>
     (\<forall>a a' w. w \<in> set (arrays s a) \<longrightarrow> w \<in> set (arrays s a') \<longrightarrow> a = a') \<and>
     (\<forall>i < length (invocations s). inv_pending (invocations s ! i) \<longrightarrow>
        (\<forall>w \<in> set (arrays s (inv_newWaiting (invocations s ! i))). promises s w = None))"

definition deferExample :: "(nat, nat, string) deferGetsState" where
  "deferExample = run [Call ''probe'' 1] initialState"

section \<open>The api library: promiseTimeout\<close>

text \<open>
  \<^verbatim>\<open>promiseTimeout(p, timeoutTime, timeoutMessage)\<close> returns a new promise, sets a timer
  and hooks \<^verbatim>\<open>p\<close>. Time is logical: a number of milliseconds, which \<^verbatim>\<open>Date.now()\<close>
  reads. The new promise is rejected with \<^verbatim>\<open>p\<close>'s own reason or with the timeout
  message, a string.
\<close>

datatype 'e rejection = Cause 'e | TimeoutMessage string

text \<open>\<^verbatim>\<open>timeoutMessage?: string | ((timeoutDuration: number) => string)\<close>. The
  function, called with a duration, returns a string or throws: \<open>None\<close>.\<close>

datatype timeoutMessage = NoMessage | Message string | MessageFunction "nat \<Rightarrow> string option"

text \<open>\<^verbatim>\<open>setTimeout(callback, delay)\<close> is the platform's (Node.js), not the repository's.
  It keeps a delay from 1 to 2147483647 and sets any other delay to 1. The event loop
  runs the callback once, unless the timer was cleared, and no earlier than the delay
  after the call of \<^verbatim>\<open>setTimeout\<close>; how much later is the loop's matter. \<^verbatim>\<open>timeoutTime\<close>
  is a whole number of milliseconds.\<close>

definition TIMEOUT_MAX :: int where
  "TIMEOUT_MAX = 2147483647"

definition timerDelay :: "int \<Rightarrow> nat" where
  "timerDelay after = (if 1 \<le> after \<and> after \<le> TIMEOUT_MAX then nat after else 1)"

text \<open>The new promise, with the time it settled at; whether the timer is set; and
  whether an exception has left the timer's callback.\<close>

record ('v, 'e) timeoutState =
  result :: "(nat \<times> ('v, 'e rejection) settled) option"
  timerSet :: bool
  uncaught :: bool

text \<open>\<^verbatim>\<open>resolve\<close> and \<^verbatim>\<open>reject\<close> of the new promise: the first to be called settles it.\<close>

definition settleResult ::
  "nat \<Rightarrow> ('v, 'e rejection) settled \<Rightarrow> ('v, 'e) timeoutState \<Rightarrow> ('v, 'e) timeoutState" where
  "settleResult now outcome s =
     (case result s of None \<Rightarrow> s\<lparr> result := Some (now, outcome) \<rparr> | Some r \<Rightarrow> s)"

text \<open>\<^verbatim>\<open>msg || 'Timeout'\<close>: a missing or empty message gives \<^verbatim>\<open>'Timeout'\<close>.\<close>

fun orTimeout :: "string option \<Rightarrow> string" where
  "orTimeout None = ''Timeout''"
| "orTimeout (Some m) = (if m = [] then ''Timeout'' else m)"

text \<open>The argument of \<^verbatim>\<open>reject\<close> in the timer's callback, for \<^verbatim>\<open>msg\<close> the message given
  or the message function applied to the duration; \<open>None\<close> when that function throws.\<close>

definition timeoutText :: "timeoutMessage \<Rightarrow> nat \<Rightarrow> string option" where
  "timeoutText timeoutMessage duration =
     (case timeoutMessage of
        MessageFunction f \<Rightarrow>
          (case f duration of None \<Rightarrow> None | Some m \<Rightarrow> Some (orTimeout (Some m)))
      | Message m \<Rightarrow> Some (orTimeout (Some m))
      | NoMessage \<Rightarrow> Some (orTimeout None))"

text \<open>The callback of \<^verbatim>\<open>setTimeout\<close>. When the message function throws, the exception
  leaves the callback and \<^verbatim>\<open>reject\<close> is not called.\<close>

definition timerCallback ::
  "nat \<Rightarrow> timeoutMessage \<Rightarrow> nat \<Rightarrow> ('v, 'e) timeoutState \<Rightarrow> ('v, 'e) timeoutState" where
  "timerCallback startTime timeoutMessage now s =
     (let duration = now - startTime
      in case timeoutText timeoutMessage duration of
           None \<Rightarrow> s\<lparr> uncaught := True \<rparr>
         | Some msg \<Rightarrow> settleResult now (Rejected (TimeoutMessage msg)) s)"

text \<open>\<^verbatim>\<open>Promise.resolve(p).then(resolve).catch(reject).finally(() => clearTimeout(timeout))\<close>,
  run when \<^verbatim>\<open>p\<close> settles.\<close>

definition pCallbacks ::
  "('v, 'e) settled \<Rightarrow> nat \<Rightarrow> ('v, 'e) timeoutState \<Rightarrow> ('v, 'e) timeoutState" where
  "pCallbacks outcome now s =
     (let s1 = (case outcome of
                  Resolved v \<Rightarrow> settleResult now (Resolved v) s
                | Rejected e \<Rightarrow> settleResult now (Rejected (Cause e)) s)
      in s1\<lparr> timerSet := False \<rparr>)"

text \<open>What \<^verbatim>\<open>p\<close> does: it never settles, or it settles some time after the call (at
  once, if it had settled before).\<close>

datatype ('v, 'e) behaviour = Never | SettlesAfter nat "('v, 'e) settled"

datatype ('v, 'e) loopEvent = TimerRuns | PSettles "('v, 'e) settled"

text \<open>The event loop runs the timer's callback only if the timer is still set.\<close>

fun handle ::
  "nat \<Rightarrow> timeoutMessage \<Rightarrow> nat \<times> ('v, 'e) loopEvent \<Rightarrow> ('v, 'e) timeoutState \<Rightarrow>
   ('v, 'e) timeoutState" where
  "handle startTime timeoutMessage (now, TimerRuns) s =
     (if timerSet s then (timerCallback startTime timeoutMessage now s)\<lparr> timerSet := False \<rparr>
      else s)"
| "handle startTime timeoutMessage (now, PSettles outcome) s = pCallbacks outcome now s"

text \<open>The two events in the order of their times. The timer's callback runs \<open>lateness\<close>
  after its delay has passed; \<open>pFirst\<close> says which event comes first when \<^verbatim>\<open>p\<close> settles
  at the very time the callback is run.\<close>

definition schedule ::
  "('v, 'e) behaviour \<Rightarrow> int \<Rightarrow> nat \<Rightarrow> bool \<Rightarrow> nat \<Rightarrow> (nat \<times> ('v, 'e) loopEvent) list" where
  "schedule p timeoutTime lateness pFirst startTime =
     (let timerRuns = timerDelay timeoutTime + lateness
      in case p of
           Never \<Rightarrow> [(startTime + timerRuns, TimerRuns)]
         | SettlesAfter d outcome \<Rightarrow>
             if d < timerRuns \<or> (d = timerRuns \<and> pFirst)
             then [(startTime + d, PSettles outcome), (startTime + timerRuns, TimerRuns)]
             else [(startTime + timerRuns, TimerRuns), (startTime + d, PSettles outcome)])"

text \<open>\<^verbatim>\<open>promiseTimeout\<close> called at \<open>startTime\<close>: the state in the end.\<close>

definition promiseTimeout ::
  "('v, 'e) behaviour \<Rightarrow> int \<Rightarrow> timeoutMessage \<Rightarrow> nat \<Rightarrow> bool \<Rightarrow> nat \<Rightarrow>
   ('v, 'e) timeoutState" where
  "promiseTimeout p timeoutTime timeoutMessage lateness pFirst startTime =
     fold (handle startTime timeoutMessage) (schedule p timeoutTime lateness pFirst startTime)
       \<lparr> result = None, timerSet = True, uncaught = False \<rparr>"

section \<open>Accessors\<close>

datatype AccessType =
    LOCAL_FOLDER
  | FILE_SHARE
  | HTTP
  | HTTP_PROXY
  | QUANTEL
  | CORE_PACKAGE_INFO
  | ATEM_MEDIA_STORE

text \<open>The literal type \<^verbatim>\<open>false\<close> of TypeScript: a type with one value.\<close>

datatype literal_false = LiteralFalse

fun literalValue :: "literal_false \<Rightarrow> bool" where
  "literalValue LiteralFalse = False"

text \<open>\<^verbatim>\<open>Accessor.Base\<close>. The \<^verbatim>\<open>type\<close> of an accessor is fixed by its interface and is
  read off the variant below. A field that several interfaces declare carries the
  interface's name, since a record field is a constant of the theory.\<close>

record Accessor_Base =
  label :: string
  allowRead :: bool
  allowWrite :: bool

record Accessor_LocalFolder = Accessor_Base +
  resourceId_LocalFolder :: "string option"
  folderPath_LocalFolder :: string

record Accessor_FileShare = Accessor_Base +
  networkId_FileShare :: "string option"
  folderPath_FileShare :: string
  userName :: "string option"
  password :: "string option"

text \<open>\<^verbatim>\<open>Accessor.HTTP\<close> narrows \<^verbatim>\<open>allowWrite\<close> to the literal \<^verbatim>\<open>false\<close>, so it is not an
  extension of the base record.\<close>

record Accessor_HTTP =
  label_HTTP :: string
  allowRead_HTTP :: bool
  allowWrite_HTTP :: literal_false
  baseUrl_HTTP :: string
  networkId_HTTP :: "string option"

record Accessor_HTTPProxy = Accessor_Base +
  baseUrl_HTTPProxy :: string
  networkId_HTTPProxy :: "string option"

record Accessor_Quantel = Accessor_Base +
  quantelGatewayUrl :: string
  ISAUrls :: "string list"
  zoneId :: "string option"
  serverId :: "int option"
  networkId_Quantel :: "string option"
  transformerURL :: "string option"
  fileflowURL :: "string option"
  fileflowProfile :: "string option"

datatype AtemMediaType = Clip | Still

record Accessor_AtemMediaStore = Accessor_Base +
  resourceId_AtemMediaStore :: "string option"
  networkId_AtemMediaStore :: "string option"
  atemHost :: string
  bankIndex :: int
  mediaType :: AtemMediaType

text \<open>\<^verbatim>\<open>Accessor.Any\<close>; \<^verbatim>\<open>Accessor.CorePackageCollection\<close> adds nothing to the base.\<close>

datatype Accessor_Any =
    AnyLocalFolder Accessor_LocalFolder
  | AnyFileShare Accessor_FileShare
  | AnyHTTP Accessor_HTTP
  | AnyHTTPProxy Accessor_HTTPProxy
  | AnyQuantel Accessor_Quantel
  | AnyCorePackageCollection Accessor_Base
  | AnyAtemMediaStore Accessor_AtemMediaStore

fun accessorType :: "Accessor_Any \<Rightarrow> AccessType" where
  "accessorType (AnyLocalFolder a) = LOCAL_FOLDER"
| "accessorType (AnyFileShare a) = FILE_SHARE"
| "accessorType (AnyHTTP a) = HTTP"
| "accessorType (AnyHTTPProxy a) = HTTP_PROXY"
| "accessorType (AnyQuantel a) = QUANTEL"
| "accessorType (AnyCorePackageCollection a) = CORE_PACKAGE_INFO"
| "accessorType (AnyAtemMediaStore a) = ATEM_MEDIA_STORE"

fun accessorAllowWrite :: "Accessor_Any \<Rightarrow> bool" where
  "accessorAllowWrite (AnyLocalFolder a) = allowWrite a"
| "accessorAllowWrite (AnyFileShare a) = allowWrite a"
| "accessorAllowWrite (AnyHTTP a) = literalValue (allowWrite_HTTP a)"
| "accessorAllowWrite (AnyHTTPProxy a) = allowWrite a"
| "accessorAllowWrite (AnyQuantel a) = allowWrite a"
| "accessorAllowWrite (AnyCorePackageCollection a) = allowWrite a"
| "accessorAllowWrite (AnyAtemMediaStore a) = allowWrite a"

definition exampleHTTP :: Accessor_HTTP where
  "exampleHTTP =
     \<lparr> label_HTTP = ''HTTP'', allowRead_HTTP = True, allowWrite_HTTP = LiteralFalse,
       baseUrl_HTTP = '''', networkId_HTTP = None \<rparr>"

definition exampleHTTPProxy :: Accessor_HTTPProxy where
  "exampleHTTPProxy =
     \<lparr> label = ''Proxy'', allowRead = True, allowWrite = True,
       baseUrl_HTTPProxy = ''http://proxy/'', networkId_HTTPProxy = None \<rparr>"

section \<open>Example contexts\<close>

text \<open>A tracked expectation in the WAITING state, a worker with a fixed reply, and the
  contexts built from them: the concrete inputs of the witnesses below.\<close>

definition exampleExpectation :: Expectation where
  "exampleExpectation =
     \<lparr> expectationId = ''exp1'', priority = 1, contentVersionHash = ''h1'',
       dependsOnFulfilled = [], triggerByFulfilledIds = [] \<rparr>"

definition exampleTracked :: TrackedExpectation where
  "exampleTracked =
     \<lparr> exp = exampleExpectation, state = WAITING,
       reason = \<lparr> user = ''Waiting'', tech = ''Waiting for a worker'' \<rparr>,
       status = emptyStatus, session = None \<rparr>"

definition exampleWorker :: "thrown + ReturnTypeIsExpectationFullfilled \<Rightarrow> AssignedWorker" where
  "exampleWorker reply =
     \<lparr> workerId = ''w1'', worker = \<lparr> isExpectationFullfilled = (\<lambda>e wasFulfilled. reply) \<rparr> \<rparr>"

definition exampleContext ::
  "AssignedWorker option \<Rightarrow> thrown + ReturnTypeIsExpectationReadyToStartWorkingOn \<Rightarrow>
   EvaluateContext" where
  "exampleContext aw readyReply =
     \<lparr> manager = \<lparr> assignWorkerToSession = (\<lambda>te. aw) \<rparr>,
       tracker =
         \<lparr> isExpectationReadyToStartWorkingOn = (\<lambda>w te. readyReply),
           onExpectationFullfilled = (\<lambda>te. state te = FULFILLED),
           noWorkerReason =
             (\<lambda>te. \<lparr> user = ''No worker available'', tech = ''No worker assigned'' \<rparr>) \<rparr>,
       trackedExp = exampleTracked \<rparr>"

definition fulfilledReply :: ReturnTypeIsExpectationFullfilled where
  "fulfilledReply =
     \<lparr> fulfilled = True, fulfilled_reason = \<lparr> user = ''Done'', tech = ''File exists'' \<rparr>,
       fulfilled_actualVersionHash = Some ''h1'' \<rparr>"

definition notFulfilledReply :: ReturnTypeIsExpectationFullfilled where
  "notFulfilledReply =
     \<lparr> fulfilled = False, fulfilled_reason = \<lparr> user = ''Not done'', tech = ''File missing'' \<rparr>,
       fulfilled_actualVersionHash = None \<rparr>"

definition readyReply :: ReturnTypeIsExpectationReadyToStartWorkingOn where
  "readyReply =
     \<lparr> ready = True, isWaitingForAnother = None, ready_sourceExists = Some True,
       ready_reason = \<lparr> user = ''Ready'', tech = ''Source found'' \<rparr> \<rparr>"

definition notReadyReply :: "bool option \<Rightarrow> ReturnTypeIsExpectationReadyToStartWorkingOn" where
  "notReadyReply waitingForAnother =
     \<lparr> ready = False, isWaitingForAnother = waitingForAnother, ready_sourceExists = Some False,
       ready_reason = \<lparr> user = ''Not ready'', tech = ''Source missing'' \<rparr> \<rparr>"

text \<open>Values that a worker's call throws: the string of 300 characters \<^verbatim>\<open>'xx...x'\<close>; the
  plain object \<^verbatim>\<open>{a: 'xx...x'}\<close> holding that string, whose string form is
  \<^verbatim>\<open>[object Object]\<close> and whose JSON form has 308 characters; and \<^verbatim>\<open>Object.create(null)\<close>,
  which has no string form: to ask for it throws a TypeError.\<close>

definition longText :: string where
  "longText = replicate 300 (CHR ''x'')"

definition longJSON :: string where
  "longJSON =
     ''{'' @ [CHR 0x22] @ ''a'' @ [CHR 0x22] @ '':'' @ [CHR 0x22] @ longText @ [CHR 0x22] @ ''}''"

definition thrownString :: thrown where
  "thrownString = Primitive (Inr longText) (Some ([CHR 0x22] @ longText @ [CHR 0x22]))"

definition plainObject :: thrown where
  "plainObject = ErrorObject (Inr ''[object Object]'') None None None (Some longJSON)"

definition typeError :: thrown where
  "typeError =
     ErrorObject (Inr ''TypeError: Cannot convert object to primitive value'') None None
       (Some (Inr ''TypeError: Cannot convert object to primitive value at stringifyError''))
       (Some ''{}'')"

definition nullPrototypeObject :: thrown where
  "nullPrototypeObject = ErrorObject (Inl typeError) None None None (Some ''{}'')"

section \<open>Properties of hashObj\<close>

lemma sort_keys_eq:
  "distinct (xs :: string list) \<Longrightarrow> distinct ys \<Longrightarrow> set xs = set ys \<Longrightarrow> sort xs = sort ys"
  by (rule sorted_distinct_set_unique) simp_all

text \<open>
  C4. Two well-formed values that hold the same key-to-value mappings and differ only
  in the order of object keys, at any depth, get the same string from hashObj,
  whatever the string hash is.
\<close>

theorem hashObj_key_order_independent:
  "sameUpToKeyOrder a b \<Longrightarrow> wellFormed a \<Longrightarrow> wellFormed b \<Longrightarrow>
   hashObj hash a = hashObj hash b"
proof (induction a b rule: sameUpToKeyOrder.induct)
  case (1 xs b)
  then obtain ys where b: "b = JArr ys" and rel: "list_all2 sameUpToKeyOrder xs ys"
    by (cases b) auto
  from "1.prems" b have wf: "list_all wellFormed xs" "list_all wellFormed ys" by auto
  have "list_all2 (\<lambda>x y. hashObj hash x = hashObj hash y) xs ys"
    using rel wf "1.IH"[OF b]
    by (auto simp: list_all2_conv_all_nth list_all_length)
  then have "map (hashObj hash) xs = map (hashObj hash) ys"
    by (simp add: list_all2_conv_all_nth list_eq_iff_nth_eq)
  with b show ?case by (simp add: hashObj.simps[of hash "JArr xs" for xs])
next
  case (2 kvs b)
  then obtain kvs' where b: "b = JObj kvs'"
    and ks: "set (keys kvs) = set (keys kvs')"
    and rel: "list_all (\<lambda>key. sameUpToKeyOrder (get kvs key) (get kvs' key)) (keys kvs)"
    by (cases b) auto
  from "2.prems" b have d: "distinct (keys kvs)" "distinct (keys kvs')"
    and wf1: "list_all (\<lambda>key. wellFormed (get kvs key)) (keys kvs)"
    and wf2: "list_all (\<lambda>key. wellFormed (get kvs' key)) (keys kvs')"
    by auto
  have srt: "sort (keys kvs) = sort (keys kvs')"
    using d ks by (rule sort_keys_eq)
  have "hashObj hash (get kvs key) = hashObj hash (get kvs' key)"
    if "key \<in> set (keys kvs)" for key
    using that "2.IH"[OF b that] rel wf1 wf2 ks by (auto simp: list_all_iff)
  then have "map (\<lambda>key. hashObj hash (get kvs key)) (sort (keys kvs)) =
             map (\<lambda>key. hashObj hash (get kvs' key)) (sort (keys kvs))"
    by (intro map_cong) auto
  also have "\<dots> = map (\<lambda>key. hashObj hash (get kvs' key)) (sort (keys kvs'))"
    by (simp only: srt)
  finally show ?case
    by (simp add: b hashObj.simps[of hash "JObj kvs" for kvs])
qed (auto simp: hashObj.simps)

theorem hashObj_key_order_independent_witness:
  "sameUpToKeyOrder
     (JObj [(''b'', JNum 12), (''a'', JObj [(''y'', JStr ''x''), (''z'', JArr [JBool True])])])
     (JObj [(''a'', JObj [(''z'', JArr [JBool True]), (''y'', JStr ''x'')]), (''b'', JNum 12)]) \<and>
   wellFormed
     (JObj [(''b'', JNum 12), (''a'', JObj [(''y'', JStr ''x''), (''z'', JArr [JBool True])])]) \<and>
   wellFormed
     (JObj [(''a'', JObj [(''z'', JArr [JBool True]), (''y'', JStr ''x'')]), (''b'', JNum 12)]) \<and>
   hashObj id
     (JObj [(''b'', JNum 12), (''a'', JObj [(''y'', JStr ''x''), (''z'', JArr [JBool True])])]) =
   hashObj id
     (JObj [(''a'', JObj [(''z'', JArr [JBool True]), (''y'', JStr ''x'')]), (''b'', JNum 12)])"
proof -
  let ?a = "JObj [(''b'', JNum 12), (''a'', JObj [(''y'', JStr ''x''), (''z'', JArr [JBool True])])]"
  let ?b = "JObj [(''a'', JObj [(''z'', JArr [JBool True]), (''y'', JStr ''x'')]), (''b'', JNum 12)]"
  have s: "sameUpToKeyOrder ?a ?b" by (auto simp: keys_def get_def)
  have wa: "wellFormed ?a" by (simp add: keys_def get_def)
  have wb: "wellFormed ?b" by (simp add: keys_def get_def)
  from hashObj_key_order_independent [OF s wa wb, of id] s wa wb show ?thesis
    by blast
qed

text \<open>
  C3. hashObj does not tell every two structurally different definitions apart, however
  good the string hash is: the keys of an object never reach the hash, only the values
  under them do. The version \<^verbatim>\<open>{checksum: 'md5'}\<close> of a media file and the version
  \<^verbatim>\<open>{checkSumType: 'md5'}\<close> are different objects with the same hashObj.
\<close>

theorem hashObj_ignores_keys:
  "wellFormed (JObj [(''checksum'', JStr ''md5'')]) \<and>
   wellFormed (JObj [(''checkSumType'', JStr ''md5'')]) \<and>
   \<not> sameUpToKeyOrder (JObj [(''checksum'', JStr ''md5'')]) (JObj [(''checkSumType'', JStr ''md5'')]) \<and>
   hashObj hash (JObj [(''checksum'', JStr ''md5'')]) = hash ''md5'' \<and>
   hashObj hash (JObj [(''checkSumType'', JStr ''md5'')]) = hash ''md5''"
  by (simp add: keys_def get_def hashObj.simps)

section \<open>Properties of the WAITING evaluation\<close>

lemma session_setAssignedWorker_ensure:
  "session (setAssignedWorker w (ensureSession te)) \<noteq> None"
  by (simp add: setAssignedWorker_def updateSession_def ensureSession_def split: option.splits)

lemma sessionAssignedWorker_set:
  "sessionAssignedWorker (setAssignedWorker w (ensureSession te)) = w"
  by (simp add: sessionAssignedWorker_def setAssignedWorker_def updateSession_def
      ensureSession_def split: option.splits)

lemma fields_setAssignedWorker:
  "state (setAssignedWorker w te) = state te"
  "reason (setAssignedWorker w te) = reason te"
  "status (setAssignedWorker w te) = status te"
  "exp (setAssignedWorker w te) = exp te"
  by (simp_all add: setAssignedWorker_def updateSession_def)

lemma fields_ensureSession:
  "state (ensureSession te) = state te"
  "reason (ensureSession te) = reason te"
  "status (ensureSession te) = status te"
  "exp (ensureSession te) = exp te"
  by (simp_all add: ensureSession_def split: option.splits)

lemma evaluate_assigned:
  assumes "state (trackedExp ctx) = WAITING"
    and "assignWorkerToSession (manager ctx) (ensureSession (trackedExp ctx)) = Some aw"
  shows "evaluateExpectationStateWaiting ctx =
     (case tryBlock ctx (withAssignedWorker aw (trackedExp ctx)) aw of
        (Inr te', calls) \<Rightarrow> Inr (te', AssignWorkerToSession # calls)
      | (Inl error, calls) \<Rightarrow>
          (case catchBlock (withAssignedWorker aw (trackedExp ctx)) aw error of
             (Inr te', calls') \<Rightarrow> Inr (te', AssignWorkerToSession # calls @ calls')
           | (Inl e, calls') \<Rightarrow>
               Inl (ThrownInCatch e (withAssignedWorker aw (trackedExp ctx))
                      (AssignWorkerToSession # calls @ calls'))))"
  using assms
  by (simp add: evaluateExpectationStateWaiting_def Let_def sessionAssignedWorker_set
      withAssignedWorker_def split: prod.split sum.split)

lemma fields_withAssignedWorker:
  "state (withAssignedWorker aw te) = state te"
  "reason (withAssignedWorker aw te) = reason te"
  "status (withAssignedWorker aw te) = status te"
  "exp (withAssignedWorker aw te) = exp te"
  "sessionAssignedWorker (withAssignedWorker aw te) = Some aw"
  "sessionTriggerAgain (withAssignedWorker aw te) = sessionTriggerAgain te"
  by (simp_all add: withAssignedWorker_def fields_setAssignedWorker fields_ensureSession
      sessionAssignedWorker_set)
     (simp add: sessionTriggerAgain_def setAssignedWorker_def updateSession_def
        ensureSession_def emptySession_def split: option.splits)

lemma session_updateSession:
  "sessionAssignedWorker (updateSession (\<lambda>s. s\<lparr> triggerOtherExpectationsAgain := t \<rparr>) te) =
     sessionAssignedWorker te"
  "sessionAssignedWorker te = Some aw \<Longrightarrow>
   sessionTriggerAgain (updateSession (\<lambda>s. s\<lparr> triggerOtherExpectationsAgain := t \<rparr>) te) = t"
  "state (updateSession f te) = state te"
  "reason (updateSession f te) = reason te"
  "status (updateSession f te) = status te"
  "exp (updateSession f te) = exp te"
  by (simp_all add: sessionAssignedWorker_def sessionTriggerAgain_def updateSession_def
      split: option.splits)

lemma session_state_update:
  "sessionAssignedWorker (te\<lparr> state := s \<rparr>) = sessionAssignedWorker te"
  "sessionTriggerAgain (te\<lparr> state := s \<rparr>) = sessionTriggerAgain te"
  by (simp_all add: sessionAssignedWorker_def sessionTriggerAgain_def)

lemma update_state_only:
  "updateTrackedExpectationStatus te
     \<lparr> upd_state = Some s, upd_reason = None, upd_status = None, upd_isError = e \<rparr> =
   te\<lparr> state := s \<rparr>"
  by (cases te) (simp add: updateTrackedExpectationStatus_def)

lemma newStatus_eq:
  "(case x of Some v \<Rightarrow> emptyStatus\<lparr> sourceExists := Some v \<rparr> | None \<Rightarrow> emptyStatus) =
   emptyStatus\<lparr> sourceExists := x \<rparr>"
  by (cases x) (simp_all add: emptyStatus_def)

lemma mergeStatus_sourceExists:
  "mergeStatus st (emptyStatus\<lparr> sourceExists := x \<rparr>) =
   st\<lparr> sourceExists := (case x of Some v \<Rightarrow> Some v | None \<Rightarrow> sourceExists st) \<rparr>"
  by (cases st; cases x) (simp_all add: mergeStatus_def emptyStatus_def)

lemma update_fields:
  "state (updateTrackedExpectationStatus te upd) =
     (case upd_state upd of Some s \<Rightarrow> s | None \<Rightarrow> state te)"
  "reason (updateTrackedExpectationStatus te upd) =
     (case upd_reason upd of Some r \<Rightarrow> r | None \<Rightarrow> reason te)"
  "status (updateTrackedExpectationStatus te upd) =
     (case upd_status upd of Some s \<Rightarrow> mergeStatus (status te) s | None \<Rightarrow> status te)"
  "exp (updateTrackedExpectationStatus te upd) = exp te"
  "session (updateTrackedExpectationStatus te upd) = session te"
  "sessionAssignedWorker (updateTrackedExpectationStatus te upd) = sessionAssignedWorker te"
  "sessionTriggerAgain (updateTrackedExpectationStatus te upd) = sessionTriggerAgain te"
  by (simp_all add: updateTrackedExpectationStatus_def sessionAssignedWorker_def
      sessionTriggerAgain_def)

lemma tryBlock_not_fulfilled:
  assumes "isExpectationFullfilled (worker aw) (exp te) False = Inr reply"
    and "\<not> fulfilled reply"
    and "isExpectationReadyToStartWorkingOn (tracker ctx) (worker aw) te = Inr readyToStart"
  shows "tryBlock ctx te aw =
     (let newStatus = emptyStatus\<lparr> sourceExists := ready_sourceExists readyToStart \<rparr>;
          upd =
            (if ready readyToStart then
               \<lparr> upd_state = Some READY,
                 upd_reason = Some
                   \<lparr> user = ''About to start working..'',
                     tech = ''About to start, was not fulfilled: '' @
                            tech (fulfilled_reason reply) \<rparr>,
                 upd_status = Some newStatus, upd_isError = None \<rparr>
             else if isWaitingForAnother readyToStart = Some True then
               \<lparr> upd_state = None, upd_reason = Some (ready_reason readyToStart),
                 upd_status = Some newStatus, upd_isError = None \<rparr>
             else
               \<lparr> upd_state = Some NEW, upd_reason = Some (ready_reason readyToStart),
                 upd_status = Some newStatus, upd_isError = None \<rparr>)
      in (Inr (updateTrackedExpectationStatus te upd),
          [IsExpectationFullfilled (workerId aw),
           IsExpectationReadyToStartWorkingOn (workerId aw),
           UpdateTrackedExpectationStatus upd]))"
  using assms by (simp add: tryBlock_def newStatus_eq)

lemma example_facts:
  "state (trackedExp (exampleContext w r)) = WAITING"
  "assignWorkerToSession (manager (exampleContext w r)) te = w"
  "isExpectationFullfilled (worker (exampleWorker f)) e b = f"
  "isExpectationReadyToStartWorkingOn (tracker (exampleContext w r)) api te = r"
  "status (trackedExp (exampleContext w r)) = emptyStatus"
  "reason (trackedExp (exampleContext w r)) = \<lparr> user = ''Waiting'', tech = ''Waiting for a worker'' \<rparr>"
  "workerId (exampleWorker f) = ''w1''"
  by (simp_all add: exampleContext_def exampleTracked_def exampleWorker_def)

lemma stringifyError_fallback_bounded:
  "stringifyError_str error noStack = Inr ''[object Object]'' \<Longrightarrow>
   stringifyError error noStack = Inr summary \<Longrightarrow> length summary \<le> 203"
  by (auto simp: stringifyError_def split: option.splits if_splits)

lemma stringifyError_primitive:
  "str \<noteq> ''[object Object]'' \<Longrightarrow>
   stringifyError (Primitive (Inr str) json) noStack = Inr str"
  by (simp add: stringifyError_def stringifyError_str_def)

lemma stringifyError_no_string_form:
  "templateString error = Inl e \<Longrightarrow> stringifyError error noStack = Inl e"
  by (simp add: stringifyError_def stringifyError_str_def)

lemma catch_fields:
  "stringifyError error False = Inr summary \<Longrightarrow>
   catchBlock te aw error =
     (Inr (te\<lparr> state := NEW,
               reason := \<lparr> user = ''Restarting due to error'',
                           tech = ''Error from worker '' @ workerId aw @ '': '' @ [CHR 0x22] @
                                  summary @ [CHR 0x22] \<rparr> \<rparr>),
      [LoggerWarn (''Error in WAITING: '' @ summary),
       UpdateTrackedExpectationStatus
         \<lparr> upd_state = Some NEW,
           upd_reason = Some
             \<lparr> user = ''Restarting due to error'',
               tech = ''Error from worker '' @ workerId aw @ '': '' @ [CHR 0x22] @
                      summary @ [CHR 0x22] \<rparr>,
           upd_status = None, upd_isError = Some True \<rparr>])"
  by (cases te) (simp add: catchBlock_def updateTrackedExpectationStatus_def)

lemma catch_rethrows:
  "stringifyError error False = Inl e \<Longrightarrow> catchBlock te aw error = (Inl e, [])"
  by (simp add: catchBlock_def)

text \<open>
  C1, as the code has it. For a tracked expectation in the WAITING state with an assigned
  worker whose \<^verbatim>\<open>isExpectationFullfilled\<close> returns \<^verbatim>\<open>fulfilled = true\<close>, the
  evaluation returns, the state is FULFILLED, and the one update it makes carries the
  state only: the reason and the status, \<^verbatim>\<open>actualVersionHash\<close> included, stay as they
  were, whatever hash the worker returned. It then calls
  \<^verbatim>\<open>tracker.onExpectationFullfilled\<close> on the fulfilled expectation, and
  \<^verbatim>\<open>session.triggerOtherExpectationsAgain\<close> is true when that call reports that
  something was triggered, and as it was otherwise.
\<close>

theorem waiting_fulfilled:
  assumes "state (trackedExp ctx) = WAITING"
    and "assignWorkerToSession (manager ctx) (ensureSession (trackedExp ctx)) = Some aw"
    and "isExpectationFullfilled (worker aw) (exp (trackedExp ctx)) False = Inr reply"
    and "fulfilled reply"
  shows "\<exists>te calls.
      evaluateExpectationStateWaiting ctx = Inr (te, calls) \<and>
      state te = FULFILLED \<and>
      status te = status (trackedExp ctx) \<and>
      reason te = reason (trackedExp ctx) \<and>
      exp te = exp (trackedExp ctx) \<and>
      sessionAssignedWorker te = Some aw \<and>
      calls = [AssignWorkerToSession, IsExpectationFullfilled (workerId aw),
               UpdateTrackedExpectationStatus
                 \<lparr> upd_state = Some FULFILLED, upd_reason = None, upd_status = None,
                   upd_isError = None \<rparr>,
               OnExpectationFullfilled] \<and>
      sessionTriggerAgain te =
        (if onExpectationFullfilled (tracker ctx)
              ((withAssignedWorker aw (trackedExp ctx))\<lparr> state := FULFILLED \<rparr>)
         then Some True
         else sessionTriggerAgain (trackedExp ctx))"
  using assms
  by (simp add: evaluate_assigned tryBlock_def Let_def update_state_only
      fields_withAssignedWorker session_updateSession session_state_update)

text \<open>The theorem at a worker that reports fulfilled with the hash \<open>h1\<close>.\<close>

theorem waiting_fulfilled_witness:
  "state (trackedExp (exampleContext (Some (exampleWorker (Inr fulfilledReply))) (Inl (Primitive (Inr ''unused'') None)))) = WAITING \<and>
   assignWorkerToSession
     (manager (exampleContext (Some (exampleWorker (Inr fulfilledReply))) (Inl (Primitive (Inr ''unused'') None))))
     (ensureSession (trackedExp (exampleContext (Some (exampleWorker (Inr fulfilledReply))) (Inl (Primitive (Inr ''unused'') None))))) =
     Some (exampleWorker (Inr fulfilledReply)) \<and>
   isExpectationFullfilled (worker (exampleWorker (Inr fulfilledReply)))
     (exp (trackedExp (exampleContext (Some (exampleWorker (Inr fulfilledReply))) (Inl (Primitive (Inr ''unused'') None))))) False =
     Inr fulfilledReply \<and>
   fulfilled fulfilledReply \<and>
   (\<exists>te calls.
      evaluateExpectationStateWaiting
        (exampleContext (Some (exampleWorker (Inr fulfilledReply))) (Inl (Primitive (Inr ''unused'') None))) =
        Inr (te, calls) \<and>
      state te = FULFILLED \<and> status te = emptyStatus \<and>
      sessionTriggerAgain te = Some True)"
proof -
  let ?ctx = "exampleContext (Some (exampleWorker (Inr fulfilledReply))) (Inl (Primitive (Inr ''unused'') None))"
  let ?aw = "exampleWorker (Inr fulfilledReply)"
  have h1: "state (trackedExp ?ctx) = WAITING"
    by (simp add: exampleContext_def exampleTracked_def)
  have h2: "assignWorkerToSession (manager ?ctx) (ensureSession (trackedExp ?ctx)) = Some ?aw"
    by (simp add: exampleContext_def)
  have h3: "isExpectationFullfilled (worker ?aw) (exp (trackedExp ?ctx)) False = Inr fulfilledReply"
    by (simp add: exampleWorker_def)
  have h4: "fulfilled fulfilledReply"
    by (simp add: fulfilledReply_def)
  have t: "onExpectationFullfilled (tracker ?ctx) te = (state te = FULFILLED)" for te
    by (simp add: exampleContext_def)
  have s: "status (trackedExp ?ctx) = emptyStatus"
    by (simp add: exampleContext_def exampleTracked_def)
  from waiting_fulfilled [OF h1 h2 h3 h4] h1 h2 h3 h4 show ?thesis
    by (auto simp: t s)
qed

text \<open>C1 as stated fails there: the worker returns the hash \<open>h1\<close>, and after the
  evaluation the status holds no \<^verbatim>\<open>actualVersionHash\<close>.\<close>

theorem waiting_fulfilled_hash_counterexample:
  "fulfilled_actualVersionHash fulfilledReply = Some ''h1'' \<and>
   (case evaluateExpectationStateWaiting
           (exampleContext (Some (exampleWorker (Inr fulfilledReply))) (Inl (Primitive (Inr ''unused'') None))) of
      Inr (te, calls) \<Rightarrow> state te = FULFILLED \<and> actualVersionHash (status te) = None
    | Inl e \<Rightarrow> False)"
  by (simp add: evaluateExpectationStateWaiting_def exampleContext_def exampleTracked_def
      exampleWorker_def fulfilledReply_def Let_def tryBlock_def ensureSession_def
      setAssignedWorker_def updateSession_def emptySession_def sessionAssignedWorker_def
      updateTrackedExpectationStatus_def emptyStatus_def)

text \<open>
  C6. For a tracked expectation in the WAITING state with an assigned worker that reports
  not fulfilled, when \<^verbatim>\<open>isExpectationReadyToStartWorkingOn\<close> returns \<^verbatim>\<open>ready = true\<close>
  the evaluation sets the state to READY, with the reason built from the worker's
  not-fulfilled reason, and copies \<^verbatim>\<open>sourceExists\<close> into the tracked status whenever
  the reply defines it.
\<close>

theorem waiting_ready:
  assumes "state (trackedExp ctx) = WAITING"
    and "assignWorkerToSession (manager ctx) (ensureSession (trackedExp ctx)) = Some aw"
    and "isExpectationFullfilled (worker aw) (exp (trackedExp ctx)) False = Inr reply"
    and "\<not> fulfilled reply"
    and "isExpectationReadyToStartWorkingOn (tracker ctx) (worker aw)
           (withAssignedWorker aw (trackedExp ctx)) = Inr readyToStart"
    and "ready readyToStart"
  shows "\<exists>te calls.
      evaluateExpectationStateWaiting ctx = Inr (te, calls) \<and>
      state te = READY \<and>
      reason te = \<lparr> user = ''About to start working..'',
                    tech = ''About to start, was not fulfilled: '' @ tech (fulfilled_reason reply) \<rparr> \<and>
      status te = (status (trackedExp ctx))
        \<lparr> sourceExists := (case ready_sourceExists readyToStart of
                             Some v \<Rightarrow> Some v
                           | None \<Rightarrow> sourceExists (status (trackedExp ctx))) \<rparr> \<and>
      exp te = exp (trackedExp ctx) \<and>
      sessionAssignedWorker te = Some aw \<and>
      calls = [AssignWorkerToSession, IsExpectationFullfilled (workerId aw),
               IsExpectationReadyToStartWorkingOn (workerId aw),
               UpdateTrackedExpectationStatus
                 \<lparr> upd_state = Some READY,
                   upd_reason = Some
                     \<lparr> user = ''About to start working..'',
                       tech = ''About to start, was not fulfilled: '' @
                              tech (fulfilled_reason reply) \<rparr>,
                   upd_status = Some (emptyStatus\<lparr> sourceExists := ready_sourceExists readyToStart \<rparr>),
                   upd_isError = None \<rparr>]"
proof -
  let ?te = "withAssignedWorker aw (trackedExp ctx)"
  from assms(3) have f: "isExpectationFullfilled (worker aw) (exp ?te) False = Inr reply"
    by (simp add: fields_withAssignedWorker)
  show ?thesis
    using assms(6)
    by (simp add: evaluate_assigned [OF assms(1,2)] tryBlock_not_fulfilled [OF f assms(4,5)]
        Let_def update_fields fields_withAssignedWorker mergeStatus_sourceExists)
qed

text \<open>The theorem at a worker that is ready and has found the source.\<close>

theorem waiting_ready_witness:
  "state (trackedExp (exampleContext (Some (exampleWorker (Inr notFulfilledReply))) (Inr readyReply))) = WAITING \<and>
   assignWorkerToSession
     (manager (exampleContext (Some (exampleWorker (Inr notFulfilledReply))) (Inr readyReply)))
     (ensureSession (trackedExp (exampleContext (Some (exampleWorker (Inr notFulfilledReply))) (Inr readyReply)))) =
     Some (exampleWorker (Inr notFulfilledReply)) \<and>
   \<not> fulfilled notFulfilledReply \<and> ready readyReply \<and>
   (\<exists>te calls.
      evaluateExpectationStateWaiting
        (exampleContext (Some (exampleWorker (Inr notFulfilledReply))) (Inr readyReply)) =
        Inr (te, calls) \<and>
      state te = READY \<and>
      reason te = \<lparr> user = ''About to start working..'',
                    tech = ''About to start, was not fulfilled: File missing'' \<rparr> \<and>
      sourceExists (status te) = Some True)"
proof -
  let ?aw = "exampleWorker (Inr notFulfilledReply)"
  let ?ctx = "exampleContext (Some ?aw) (Inr readyReply)"
  have h1: "state (trackedExp ?ctx) = WAITING" by (simp add: example_facts)
  have h2: "assignWorkerToSession (manager ?ctx) (ensureSession (trackedExp ?ctx)) = Some ?aw"
    by (simp add: example_facts)
  have h3: "isExpectationFullfilled (worker ?aw) (exp (trackedExp ?ctx)) False = Inr notFulfilledReply"
    by (simp add: example_facts)
  have h4: "\<not> fulfilled notFulfilledReply" by (simp add: notFulfilledReply_def)
  have h5: "isExpectationReadyToStartWorkingOn (tracker ?ctx) (worker ?aw)
              (withAssignedWorker ?aw (trackedExp ?ctx)) = Inr readyReply"
    by (simp add: example_facts)
  have h6: "ready readyReply" by (simp add: readyReply_def)
  have r: "ready_sourceExists readyReply = Some True"
    "tech (fulfilled_reason notFulfilledReply) = ''File missing''"
    by (simp_all add: readyReply_def notFulfilledReply_def)
  from waiting_ready [OF h1 h2 h3 h4 h5 h6] h1 h2 h4 h6 show ?thesis
    by (auto simp: r)
qed

text \<open>
  C5. For a tracked expectation in the WAITING state with an assigned worker that reports
  not fulfilled, when \<^verbatim>\<open>isExpectationReadyToStartWorkingOn\<close> returns \<^verbatim>\<open>ready = false\<close>:
  if the reply has \<^verbatim>\<open>isWaitingForAnother = true\<close> the state stays WAITING and only the
  reason and the status change; otherwise the state is set to NEW, with the same
  reason and status.
\<close>

theorem waiting_not_ready:
  assumes "state (trackedExp ctx) = WAITING"
    and "assignWorkerToSession (manager ctx) (ensureSession (trackedExp ctx)) = Some aw"
    and "isExpectationFullfilled (worker aw) (exp (trackedExp ctx)) False = Inr reply"
    and "\<not> fulfilled reply"
    and "isExpectationReadyToStartWorkingOn (tracker ctx) (worker aw)
           (withAssignedWorker aw (trackedExp ctx)) = Inr readyToStart"
    and "\<not> ready readyToStart"
  shows "\<exists>te calls.
      evaluateExpectationStateWaiting ctx = Inr (te, calls) \<and>
      state te = (if isWaitingForAnother readyToStart = Some True then WAITING else NEW) \<and>
      te = (withAssignedWorker aw (trackedExp ctx))
        \<lparr> state := (if isWaitingForAnother readyToStart = Some True then WAITING else NEW),
          reason := ready_reason readyToStart,
          status := (status (trackedExp ctx))
            \<lparr> sourceExists := (case ready_sourceExists readyToStart of
                                 Some v \<Rightarrow> Some v
                               | None \<Rightarrow> sourceExists (status (trackedExp ctx))) \<rparr> \<rparr> \<and>
      calls = [AssignWorkerToSession, IsExpectationFullfilled (workerId aw),
               IsExpectationReadyToStartWorkingOn (workerId aw),
               UpdateTrackedExpectationStatus
                 \<lparr> upd_state = (if isWaitingForAnother readyToStart = Some True then None else Some NEW),
                   upd_reason = Some (ready_reason readyToStart),
                   upd_status = Some (emptyStatus\<lparr> sourceExists := ready_sourceExists readyToStart \<rparr>),
                   upd_isError = None \<rparr>]"
proof -
  let ?te = "withAssignedWorker aw (trackedExp ctx)"
  from assms(3) have f: "isExpectationFullfilled (worker aw) (exp ?te) False = Inr reply"
    by (simp add: fields_withAssignedWorker)
  have st: "state ?te = WAITING" "status ?te = status (trackedExp ctx)"
    using assms(1) by (simp_all add: fields_withAssignedWorker)
  show ?thesis
    using assms(6) st
    by (simp add: evaluate_assigned [OF assms(1,2)] tryBlock_not_fulfilled [OF f assms(4,5)]
        Let_def updateTrackedExpectationStatus_def mergeStatus_sourceExists)
qed

text \<open>The theorem at a worker that is not ready, once waiting for another
  expectation and once not.\<close>

theorem waiting_not_ready_witness:
  "state (trackedExp (exampleContext (Some (exampleWorker (Inr notFulfilledReply))) (Inr (notReadyReply (Some True))))) = WAITING \<and>
   \<not> fulfilled notFulfilledReply \<and> \<not> ready (notReadyReply (Some True)) \<and>
   \<not> ready (notReadyReply None) \<and>
   (\<exists>te calls.
      evaluateExpectationStateWaiting
        (exampleContext (Some (exampleWorker (Inr notFulfilledReply))) (Inr (notReadyReply (Some True)))) =
        Inr (te, calls) \<and>
      state te = WAITING \<and>
      reason te = \<lparr> user = ''Not ready'', tech = ''Source missing'' \<rparr> \<and>
      sourceExists (status te) = Some False) \<and>
   (\<exists>te calls.
      evaluateExpectationStateWaiting
        (exampleContext (Some (exampleWorker (Inr notFulfilledReply))) (Inr (notReadyReply None))) =
        Inr (te, calls) \<and>
      state te = NEW \<and>
      reason te = \<lparr> user = ''Not ready'', tech = ''Source missing'' \<rparr> \<and>
      sourceExists (status te) = Some False)"
proof -
  let ?aw = "exampleWorker (Inr notFulfilledReply)"
  have h4: "\<not> fulfilled notFulfilledReply" by (simp add: notFulfilledReply_def)
  have r: "ready_sourceExists (notReadyReply w) = Some False"
    "ready_reason (notReadyReply w) = \<lparr> user = ''Not ready'', tech = ''Source missing'' \<rparr>"
    "isWaitingForAnother (notReadyReply w) = w" "\<not> ready (notReadyReply w)" for w
    by (simp_all add: notReadyReply_def)
  have a: "\<exists>te calls.
      evaluateExpectationStateWaiting (exampleContext (Some ?aw) (Inr (notReadyReply w))) =
        Inr (te, calls) \<and>
      state te = (if w = Some True then WAITING else NEW) \<and>
      reason te = \<lparr> user = ''Not ready'', tech = ''Source missing'' \<rparr> \<and>
      sourceExists (status te) = Some False" for w
  proof -
    let ?ctx = "exampleContext (Some ?aw) (Inr (notReadyReply w))"
    have h1: "state (trackedExp ?ctx) = WAITING" by (simp add: example_facts)
    have h2: "assignWorkerToSession (manager ?ctx) (ensureSession (trackedExp ?ctx)) = Some ?aw"
      by (simp add: example_facts)
    have h3: "isExpectationFullfilled (worker ?aw) (exp (trackedExp ?ctx)) False =
                Inr notFulfilledReply"
      by (simp add: example_facts)
    have h5: "isExpectationReadyToStartWorkingOn (tracker ?ctx) (worker ?aw)
                (withAssignedWorker ?aw (trackedExp ?ctx)) = Inr (notReadyReply w)"
      by (simp add: example_facts)
    from waiting_not_ready [OF h1 h2 h3 h4 h5 r(4)] show ?thesis
      by (auto simp: r)
  qed
  from a [of "Some True"] a [of None] h4 r(4) show ?thesis
    by (simp add: example_facts)
qed

text \<open>
  C7. For a tracked expectation in the WAITING state, when no worker can be assigned the
  evaluation makes no call to a worker; all it does is \<^verbatim>\<open>tracker.noWorkerAssigned\<close>,
  which leaves the state WAITING.
\<close>

theorem waiting_no_worker:
  assumes "state (trackedExp ctx) = WAITING"
    and "assignWorkerToSession (manager ctx) (ensureSession (trackedExp ctx)) = None"
  shows "\<exists>te calls.
      evaluateExpectationStateWaiting ctx = Inr (te, calls) \<and>
      state te = WAITING \<and>
      calls = [AssignWorkerToSession, NoWorkerAssigned] \<and>
      \<not> list_ex isWorkerCall calls \<and>
      te = noWorkerAssigned (tracker ctx)
             (setAssignedWorker None (ensureSession (trackedExp ctx))) \<and>
      status te = status (trackedExp ctx) \<and>
      exp te = exp (trackedExp ctx)"
  using assms
  by (simp add: evaluateExpectationStateWaiting_def Let_def sessionAssignedWorker_set
      noWorkerAssigned_def update_fields fields_setAssignedWorker fields_ensureSession)

text \<open>The theorem at a manager that assigns no worker.\<close>

theorem waiting_no_worker_witness:
  "state (trackedExp (exampleContext None (Inr readyReply))) = WAITING \<and>
   assignWorkerToSession (manager (exampleContext None (Inr readyReply)))
     (ensureSession (trackedExp (exampleContext None (Inr readyReply)))) = None \<and>
   (\<exists>te calls.
      evaluateExpectationStateWaiting (exampleContext None (Inr readyReply)) = Inr (te, calls) \<and>
      state te = WAITING \<and>
      calls = [AssignWorkerToSession, NoWorkerAssigned] \<and>
      reason te = \<lparr> user = ''No worker available'', tech = ''No worker assigned'' \<rparr>)"
proof -
  let ?ctx = "exampleContext None (Inr readyReply)"
  have h1: "state (trackedExp ?ctx) = WAITING" by (simp add: example_facts)
  have h2: "assignWorkerToSession (manager ?ctx) (ensureSession (trackedExp ?ctx)) = None"
    by (simp add: example_facts)
  have n: "noWorkerReason (tracker ?ctx) te =
             \<lparr> user = ''No worker available'', tech = ''No worker assigned'' \<rparr>" for te
    by (simp add: exampleContext_def)
  from waiting_no_worker [OF h1 h2] h1 h2 show ?thesis
    by (auto simp: noWorkerAssigned_def update_fields n)
qed

text \<open>
  C2, as the code has it. For a tracked expectation in the WAITING state with an assigned
  worker, when \<^verbatim>\<open>isExpectationFullfilled\<close> or \<^verbatim>\<open>isExpectationReadyToStartWorkingOn\<close>
  throws a value of which \<^verbatim>\<open>stringifyError\<close> makes a string, the evaluation still
  returns: the state is NEW, the last update has \<^verbatim>\<open>isError = true\<close>, and the tech reason
  is \<^verbatim>\<open>Error from worker <id>: "<stringifyError(error)>"\<close>. That summary of the cause is
  at most 203 characters long when the string that \<^verbatim>\<open>stringifyError\<close> has built of the
  error before its last test is \<^verbatim>\<open>[object Object]\<close> (the JSON fallback, cut at 200
  characters); no bound is stated for other errors.
\<close>

theorem waiting_worker_throws:
  assumes "state (trackedExp ctx) = WAITING"
    and "assignWorkerToSession (manager ctx) (ensureSession (trackedExp ctx)) = Some aw"
    and "isExpectationFullfilled (worker aw) (exp (trackedExp ctx)) False = Inl error \<or>
         (\<exists>reply.
            isExpectationFullfilled (worker aw) (exp (trackedExp ctx)) False = Inr reply \<and>
            \<not> fulfilled reply \<and>
            isExpectationReadyToStartWorkingOn (tracker ctx) (worker aw)
              (withAssignedWorker aw (trackedExp ctx)) = Inl error)"
    and "stringifyError error False = Inr summary"
  shows "(\<exists>te calls.
      evaluateExpectationStateWaiting ctx = Inr (te, calls) \<and>
      state te = NEW \<and>
      reason te =
        \<lparr> user = ''Restarting due to error'',
          tech = ''Error from worker '' @ workerId aw @ '': '' @ [CHR 0x22] @
                 summary @ [CHR 0x22] \<rparr> \<and>
      status te = status (trackedExp ctx) \<and>
      exp te = exp (trackedExp ctx) \<and>
      last calls =
        UpdateTrackedExpectationStatus
          \<lparr> upd_state = Some NEW, upd_reason = Some (reason te), upd_status = None,
            upd_isError = Some True \<rparr>) \<and>
    (stringifyError_str error False = Inr ''[object Object]'' \<longrightarrow> length summary \<le> 203)"
proof -
  let ?te = "withAssignedWorker aw (trackedExp ctx)"
  have t: "\<exists>calls. tryBlock ctx ?te aw = (Inl error, calls)"
    using assms(3) by (auto simp: tryBlock_def fields_withAssignedWorker)
  then obtain calls where c: "tryBlock ctx ?te aw = (Inl error, calls)" ..
  have b: "stringifyError_str error False = Inr ''[object Object]'' \<longrightarrow> length summary \<le> 203"
    using stringifyError_fallback_bounded [OF _ assms(4)] by blast
  show ?thesis
    by (simp add: evaluate_assigned [OF assms(1,2)] c catch_fields [OF assms(4)]
        fields_withAssignedWorker b)
qed

text \<open>The theorem at a worker that throws the plain object \<^verbatim>\<open>{a: 'xx...x'}\<close>, whose JSON
  form is 308 characters long: the summary is the first 200 of them and three dots.\<close>

theorem waiting_worker_throws_witness:
  "state (trackedExp (exampleContext (Some (exampleWorker (Inl plainObject))) (Inr readyReply))) =
     WAITING \<and>
   stringifyError_str plainObject False = Inr ''[object Object]'' \<and>
   stringifyError plainObject False = Inr (take 200 longJSON @ ''...'') \<and>
   (\<exists>te calls.
      evaluateExpectationStateWaiting
        (exampleContext (Some (exampleWorker (Inl plainObject))) (Inr readyReply)) =
        Inr (te, calls) \<and>
      state te = NEW \<and>
      tech (reason te) =
        ''Error from worker w1: '' @ [CHR 0x22] @ take 200 longJSON @ ''...'' @ [CHR 0x22]) \<and>
   length (take 200 longJSON @ ''...'') = 203"
proof -
  let ?aw = "exampleWorker (Inl plainObject)"
  let ?ctx = "exampleContext (Some ?aw) (Inr readyReply)"
  have h1: "state (trackedExp ?ctx) = WAITING" by (simp add: example_facts)
  have h2: "assignWorkerToSession (manager ?ctx) (ensureSession (trackedExp ?ctx)) = Some ?aw"
    by (simp add: example_facts)
  have h3: "isExpectationFullfilled (worker ?aw) (exp (trackedExp ?ctx)) False = Inl plainObject \<or>
         (\<exists>reply.
            isExpectationFullfilled (worker ?aw) (exp (trackedExp ?ctx)) False = Inr reply \<and>
            \<not> fulfilled reply \<and>
            isExpectationReadyToStartWorkingOn (tracker ?ctx) (worker ?aw)
              (withAssignedWorker ?aw (trackedExp ?ctx)) = Inl plainObject)"
    by (simp add: example_facts)
  have l: "length longJSON = 308" by (simp add: longJSON_def longText_def)
  have s: "stringifyError_str plainObject False = Inr ''[object Object]''"
    by (simp add: stringifyError_str_def plainObject_def)
  have v: "stringifyError plainObject False = Inr (take 200 longJSON @ ''...'')"
    unfolding stringifyError_def s by (simp add: plainObject_def l)
  from waiting_worker_throws [OF h1 h2 h3 v] h1 s v l show ?thesis
    by (auto simp: example_facts)
qed

text \<open>C2 as stated fails for a thrown string of 300 characters: the tech reason holds
  all of it, beyond the 203 characters the JSON fallback is cut to.\<close>

theorem waiting_worker_throws_unbounded_counterexample:
  "(case evaluateExpectationStateWaiting
           (exampleContext (Some (exampleWorker (Inl thrownString))) (Inr readyReply)) of
      Inr (te, calls) \<Rightarrow>
        state te = NEW \<and>
        tech (reason te) = ''Error from worker w1: '' @ [CHR 0x22] @ longText @ [CHR 0x22] \<and>
        length (tech (reason te)) = 324
    | Inl e \<Rightarrow> False) \<and>
   stringifyError thrownString False = Inr longText \<and>
   length longText = 300"
proof -
  have l: "length longText = 300" by (simp add: longText_def)
  have n: "longText \<noteq> ''[object Object]''"
  proof
    assume "longText = ''[object Object]''"
    then have "length longText = length ''[object Object]''" by (rule arg_cong)
    with l show False by simp
  qed
  have v: "stringifyError thrownString False = Inr longText"
    unfolding thrownString_def using n by (rule stringifyError_primitive)
  show ?thesis
    by (simp add: evaluateExpectationStateWaiting_def example_facts Let_def
        sessionAssignedWorker_set tryBlock_def catch_fields [OF v] v l)
qed

text \<open>A thrown value with no string form is outside the theorem: \<^verbatim>\<open>stringifyError\<close>
  throws in the \<^verbatim>\<open>catch\<close>, and what it throws leaves the evaluation, with the tracked
  expectation still in the WAITING state and no update made.\<close>

lemma waiting_catch_rethrows:
  assumes "state (trackedExp ctx) = WAITING"
    and "assignWorkerToSession (manager ctx) (ensureSession (trackedExp ctx)) = Some aw"
    and "isExpectationFullfilled (worker aw) (exp (trackedExp ctx)) False = Inl error"
    and "stringifyError error False = Inl e"
  shows "evaluateExpectationStateWaiting ctx =
           Inl (ThrownInCatch e (withAssignedWorker aw (trackedExp ctx))
                  [AssignWorkerToSession, IsExpectationFullfilled (workerId aw)])"
    and "state (withAssignedWorker aw (trackedExp ctx)) = WAITING"
proof -
  let ?te = "withAssignedWorker aw (trackedExp ctx)"
  have c: "tryBlock ctx ?te aw = (Inl error, [IsExpectationFullfilled (workerId aw)])"
    using assms(3) by (simp add: tryBlock_def fields_withAssignedWorker)
  show "evaluateExpectationStateWaiting ctx =
           Inl (ThrownInCatch e ?te [AssignWorkerToSession, IsExpectationFullfilled (workerId aw)])"
    by (simp add: evaluate_assigned [OF assms(1,2)] c catch_rethrows [OF assms(4)])
  show "state ?te = WAITING"
    using assms(1) by (simp add: fields_withAssignedWorker)
qed

lemma waiting_null_prototype_object_escapes:
  "evaluateExpectationStateWaiting
     (exampleContext (Some (exampleWorker (Inl nullPrototypeObject))) (Inr readyReply)) =
   Inl (ThrownInCatch typeError
          (withAssignedWorker (exampleWorker (Inl nullPrototypeObject)) exampleTracked)
          [AssignWorkerToSession, IsExpectationFullfilled ''w1''])"
proof -
  let ?aw = "exampleWorker (Inl nullPrototypeObject)"
  let ?ctx = "exampleContext (Some ?aw) (Inr readyReply)"
  have h1: "state (trackedExp ?ctx) = WAITING" by (simp add: example_facts)
  have h2: "assignWorkerToSession (manager ?ctx) (ensureSession (trackedExp ?ctx)) = Some ?aw"
    by (simp add: example_facts)
  have h3: "isExpectationFullfilled (worker ?aw) (exp (trackedExp ?ctx)) False =
              Inl nullPrototypeObject"
    by (simp add: example_facts)
  have h4: "stringifyError nullPrototypeObject False = Inl typeError"
    by (rule stringifyError_no_string_form) (simp add: nullPrototypeObject_def)
  from waiting_catch_rethrows(1) [OF h1 h2 h3 h4] show ?thesis
    by (simp add: example_facts exampleContext_def)
qed

section \<open>Properties of deferGets\<close>

lemma invar_initial: "invar initialState"
  by (simp add: invar_def initialState_def)

lemma invarD:
  assumes "invar s"
  shows "i < length (invocations s) \<Longrightarrow> inv_pending (invocations s ! i) \<Longrightarrow>
      defers s (inv_groupId (invocations s ! i)) = Some (inv_newWaiting (invocations s ! i))"
    and "i < length (invocations s) \<Longrightarrow> inv_newWaiting (invocations s ! i) < nextArray s"
    and "i < length (invocations s) \<Longrightarrow> j < length (invocations s) \<Longrightarrow>
      inv_newWaiting (invocations s ! i) = inv_newWaiting (invocations s ! j) \<Longrightarrow> i = j"
    and "w \<in> set (arrays s a) \<Longrightarrow> w < nextPromise s"
    and "w \<in> set (arrays s a) \<Longrightarrow> w \<in> set (arrays s a') \<Longrightarrow> a = a'"
    and "i < length (invocations s) \<Longrightarrow> inv_pending (invocations s ! i) \<Longrightarrow>
      w \<in> set (arrays s (inv_newWaiting (invocations s ! i))) \<Longrightarrow> promises s w = None"
  using assms unfolding invar_def by blast+

lemma fold_settlePromise_other:
  "w \<notin> set ws \<Longrightarrow> fold (settlePromise outcome) ws ps w = ps w"
  by (induction ws arbitrary: ps) (auto simp: settlePromise_def)

lemma fold_settlePromise_kept:
  "ps w = Some x \<Longrightarrow> fold (settlePromise outcome) ws ps w = Some x"
proof (induction ws arbitrary: ps)
  case Nil
  then show ?case by simp
next
  case (Cons v ws)
  from Cons.prems have "settlePromise outcome v ps w = Some x"
    by (auto simp: settlePromise_def)
  then show ?case using Cons.IH by simp
qed

lemma fold_settlePromise_member:
  "w \<in> set ws \<Longrightarrow> ps w = None \<Longrightarrow> fold (settlePromise outcome) ws ps w = Some outcome"
proof (induction ws arbitrary: ps)
  case Nil
  then show ?case by simp
next
  case (Cons v ws)
  show ?case
  proof (cases "v = w")
    case True
    with Cons.prems have "settlePromise outcome v ps w = Some outcome"
      by (simp add: settlePromise_def)
    then show ?thesis by (simp add: fold_settlePromise_kept)
  next
    case False
    with Cons.prems have "w \<in> set ws" "settlePromise outcome v ps w = None"
      by (auto simp: settlePromise_def)
    then show ?thesis using Cons.IH by simp
  qed
qed

lemma wrapper_joins:
  assumes "defers s groupId = Some waiting"
  shows "wrapper groupId args s =
     (nextPromise s,
      s\<lparr> promises := (promises s)(nextPromise s := None), nextPromise := Suc (nextPromise s),
         arrays := (arrays s)(waiting := arrays s waiting @ [nextPromise s]) \<rparr>)"
  using assms by (simp add: wrapper_def Let_def)

lemma wrapper_invokes:
  assumes "defers s groupId = None"
  shows "wrapper groupId args s =
     (nextPromise s,
      s\<lparr> promises := (promises s)(nextPromise s := None), nextPromise := Suc (nextPromise s),
         arrays := (arrays s)(nextArray s := [nextPromise s]),
         nextArray := Suc (nextArray s),
         defers := (defers s)(groupId := Some (nextArray s)),
         invocations := invocations s @
           [\<lparr> inv_args = args, inv_groupId = groupId, inv_newWaiting = nextArray s,
              inv_pending = True \<rparr>] \<rparr>)"
  using assms by (simp add: wrapper_def Let_def)

lemma invar_wrapper:
  assumes inv: "invar s"
  shows "invar (snd (wrapper groupId args s))"
proof (cases "defers s groupId")
  case None
  let ?n = "length (invocations s)"
  have fresh: "nextPromise s \<notin> set (arrays s a)" for a
    using invarD(4) [OF inv] by blast
  have nopend: "inv_groupId (invocations s ! i) \<noteq> groupId"
    if "i < ?n" "inv_pending (invocations s ! i)" for i
    using invarD(1) [OF inv that] None by auto
  have addr: "inv_newWaiting (invocations s ! i) \<noteq> nextArray s" if "i < ?n" for i
    using invarD(2) [OF inv that] by simp
  show ?thesis
    unfolding wrapper_invokes [OF None] snd_conv invar_def
  proof (intro conjI allI impI ballI, goal_cases)
    case (1 i)
    then show ?case
      using invarD(1) [OF inv, of i] nopend [of i]
      by (cases "i < ?n") (auto simp: nth_append less_Suc_eq)
  next
    case (2 i)
    then show ?case
      using invarD(2) [OF inv, of i]
      by (cases "i < ?n") (auto simp: nth_append less_Suc_eq)
  next
    case (3 i j)
    then show ?case
      using invarD(3) [OF inv, of i j] addr [of i] addr [of j]
      by (cases "i < ?n"; cases "j < ?n") (auto simp: nth_append less_Suc_eq)
  next
    case (4 a w)
    then show ?case
      using invarD(4) [OF inv, of w a]
      by (auto simp: less_Suc_eq split: if_splits)
  next
    case (5 a a' w)
    then show ?case
      using invarD(5) [OF inv, of w a a'] fresh
      by (auto split: if_splits)
  next
    case (6 i w)
    then show ?case
      using invarD(6) [OF inv, of i w] addr [of i] invarD(4) [OF inv, of w]
      by (cases "i < ?n") (auto simp: nth_append less_Suc_eq split: if_splits)
  qed
next
  case (Some waiting)
  have fresh: "nextPromise s \<notin> set (arrays s a)" for a
    using invarD(4) [OF inv] by blast
  show ?thesis
    unfolding wrapper_joins [OF Some] snd_conv invar_def
  proof (intro conjI allI impI ballI, goal_cases)
    case (1 i)
    then show ?case using invarD(1) [OF inv, of i] by simp
  next
    case (2 i)
    then show ?case using invarD(2) [OF inv, of i] by simp
  next
    case (3 i j)
    then show ?case using invarD(3) [OF inv, of i j] by simp
  next
    case (4 a w)
    then show ?case
      using invarD(4) [OF inv, of w a]
      by (auto simp: less_Suc_eq split: if_splits)
  next
    case (5 a a' w)
    then show ?case
      using invarD(5) [OF inv, of w a a'] fresh
      by (auto split: if_splits)
  next
    case (6 i w)
    then show ?case
      using invarD(6) [OF inv, of i w] invarD(4) [OF inv, of w]
      by (auto split: if_splits)
  qed
qed

lemma invar_settle:
  assumes inv: "invar s"
  shows "invar (settle k outcome s)"
proof (cases "k < length (invocations s) \<and> inv_pending (invocations s ! k)")
  case False
  then show ?thesis using inv by (auto simp: settle_def)
next
  case True
  then have k: "k < length (invocations s)" and pk: "inv_pending (invocations s ! k)"
    by simp_all
  let ?inv = "invocations s ! k"
  have eq: "settle k outcome s =
      s\<lparr> defers := (defers s)(inv_groupId ?inv := None),
         promises := fold (settlePromise outcome) (arrays s (inv_newWaiting ?inv)) (promises s),
         invocations := (invocations s)[k := ?inv\<lparr> inv_pending := False \<rparr>] \<rparr>"
    using True by (simp add: settle_def Let_def)
  have other: "inv_groupId (invocations s ! i) \<noteq> inv_groupId ?inv"
    if "i < length (invocations s)" "inv_pending (invocations s ! i)" "i \<noteq> k" for i
  proof
    assume "inv_groupId (invocations s ! i) = inv_groupId ?inv"
    with invarD(1) [OF inv that(1,2)] invarD(1) [OF inv k pk]
    have "inv_newWaiting (invocations s ! i) = inv_newWaiting ?inv" by simp
    with invarD(3) [OF inv that(1) k] that(3) show False by simp
  qed
  show ?thesis
    unfolding eq invar_def
  proof (intro conjI allI impI ballI, goal_cases)
    case (1 i)
    then show ?case
      using invarD(1) [OF inv, of i] other [of i]
      by (cases "i = k") (auto simp: nth_list_update)
  next
    case (2 i)
    then show ?case
      using invarD(2) [OF inv, of i] by (cases "i = k") (auto simp: nth_list_update)
  next
    case (3 i j)
    then show ?case
      using invarD(3) [OF inv, of i j]
      by (cases "i = k"; cases "j = k") (auto simp: nth_list_update)
  next
    case (4 a w)
    then show ?case using invarD(4) [OF inv, of w a] by simp
  next
    case (5 a a' w)
    then show ?case using invarD(5) [OF inv, of w a a'] by simp
  next
    case (6 i w)
    then have ik: "i \<noteq> k" and il: "i < length (invocations s)"
      by (auto simp: nth_list_update)
    with 6 have i: "i < length (invocations s)" "i \<noteq> k" "inv_pending (invocations s ! i)"
      and w: "w \<in> set (arrays s (inv_newWaiting (invocations s ! i)))"
      by (simp_all add: nth_list_update)
    have "inv_newWaiting (invocations s ! i) \<noteq> inv_newWaiting ?inv"
      using invarD(3) [OF inv i(1) k] i(2) by blast
    with invarD(5) [OF inv w] have "w \<notin> set (arrays s (inv_newWaiting ?inv))" by blast
    then show ?case
      using invarD(6) [OF inv i(1,3) w] by (simp add: fold_settlePromise_other)
  qed
qed

lemma invar_step: "invar s \<Longrightarrow> invar (step e s)"
  by (cases e) (simp_all add: invar_wrapper invar_settle)

lemma invar_run: "invar s \<Longrightarrow> invar (run evs s)"
  unfolding run_def by (induction evs arbitrary: s) (simp_all add: invar_step)

lemma step_keeps_in_flight:
  assumes inv: "invar s"
    and fl: "inFlight s i groupId"
    and w: "w \<in> set (arrays s (inv_newWaiting (invocations s ! i)))"
    and e: "\<not> isSettleOf i e"
  shows "inFlight (step e s) i groupId \<and>
    inv_newWaiting (invocations (step e s) ! i) = inv_newWaiting (invocations s ! i) \<and>
    w \<in> set (arrays (step e s) (inv_newWaiting (invocations s ! i)))"
proof (cases e)
  case (Call g args)
  from fl have i: "i < length (invocations s)" by (simp add: inFlight_def)
  show ?thesis
  proof (cases "defers s g")
    case None
    have "inv_newWaiting (invocations s ! i) \<noteq> nextArray s"
      using invarD(2) [OF inv i] by simp
    then show ?thesis
      using fl w i by (simp add: Call wrapper_invokes [OF None] inFlight_def nth_append)
  next
    case (Some a)
    then show ?thesis
      using fl w i by (auto simp: Call wrapper_joins [OF Some] inFlight_def)
  qed
next
  case (Settle k outcome)
  with e have ki: "i \<noteq> k" by simp
  from fl have i: "i < length (invocations s)" by (simp add: inFlight_def)
  show ?thesis
    using fl w ki i by (simp add: Settle settle_def Let_def inFlight_def)
qed

lemma run_keeps_in_flight:
  assumes "invar s"
    and "inFlight s i groupId"
    and "w \<in> set (arrays s (inv_newWaiting (invocations s ! i)))"
    and "\<not> list_ex (isSettleOf i) evs"
  shows "inFlight (run evs s) i groupId \<and>
    inv_newWaiting (invocations (run evs s) ! i) = inv_newWaiting (invocations s ! i) \<and>
    w \<in> set (arrays (run evs s) (inv_newWaiting (invocations s ! i)))"
  using assms
proof (induction evs arbitrary: s)
  case Nil
  then show ?case by (simp add: run_def)
next
  case (Cons e evs)
  from Cons.prems have e: "\<not> isSettleOf i e" and evs: "\<not> list_ex (isSettleOf i) evs"
    by simp_all
  note k = step_keeps_in_flight [OF Cons.prems(1,2,3) e]
  have inv': "invar (step e s)" using Cons.prems(1) by (rule invar_step)
  from k have w': "w \<in> set (arrays (step e s) (inv_newWaiting (invocations (step e s) ! i)))"
    by simp
  from Cons.IH [OF inv' _ w' evs] k show ?case
    by (simp add: run_def)
qed

lemma settle_delivers:
  assumes inv: "invar s"
    and fl: "inFlight s i groupId"
    and w: "w \<in> set (arrays s (inv_newWaiting (invocations s ! i)))"
  shows "promises s w = None"
    and "promises (settle i outcome s) w = Some outcome"
    and "defers (settle i outcome s) groupId = None"
    and "invocations (settle i outcome s) = (invocations s)[i := (invocations s ! i)\<lparr> inv_pending := False \<rparr>]"
proof -
  from fl have i: "i < length (invocations s)" and p: "inv_pending (invocations s ! i)"
    and g: "inv_groupId (invocations s ! i) = groupId"
    by (simp_all add: inFlight_def)
  show n: "promises s w = None" using invarD(6) [OF inv i p w] .
  show "promises (settle i outcome s) w = Some outcome"
    using i p w n by (simp add: settle_def Let_def fold_settlePromise_member)
  show "defers (settle i outcome s) groupId = None"
    using i p g by (simp add: settle_def Let_def)
  show "invocations (settle i outcome s) = (invocations s)[i := (invocations s ! i)\<lparr> inv_pending := False \<rparr>]"
    using i p by (simp add: settle_def Let_def)
qed

text \<open>
  C8. For the wrapper returned by \<^verbatim>\<open>deferGets(fcn)\<close>, in a state it has reached: a call
  with a group id made while an earlier call of \<^verbatim>\<open>fcn\<close> for that group is in flight
  does not call \<^verbatim>\<open>fcn\<close> again; its promise stays pending whatever else happens
  (calls for any group, other calls of \<^verbatim>\<open>fcn\<close> settling), and when the call in flight
  settles, it and every earlier waiter get that very outcome, resolved or rejected.
  The next call with the same group id then calls \<^verbatim>\<open>fcn\<close> anew, with its own
  arguments.
\<close>

theorem deferGets_joins_call_in_flight:
  assumes "s = run history initialState"
    and "inFlight s i groupId"
    and "\<not> list_ex (isSettleOf i) evs"
  shows "invocations (snd (wrapper groupId args s)) = invocations s \<and>
    promises (run evs (snd (wrapper groupId args s))) (fst (wrapper groupId args s)) = None \<and>
    promises (settle i outcome (run evs (snd (wrapper groupId args s))))
      (fst (wrapper groupId args s)) = Some outcome \<and>
    (\<forall>w \<in> set (arrays s (inv_newWaiting (invocations s ! i))).
       promises (settle i outcome (run evs (snd (wrapper groupId args s)))) w = Some outcome) \<and>
    invocations (snd (wrapper groupId args'
        (settle i outcome (run evs (snd (wrapper groupId args s)))))) =
      invocations (settle i outcome (run evs (snd (wrapper groupId args s)))) @
      [\<lparr> inv_args = args', inv_groupId = groupId,
         inv_newWaiting = nextArray (settle i outcome (run evs (snd (wrapper groupId args s)))),
         inv_pending = True \<rparr>]"
proof -
  let ?a = "inv_newWaiting (invocations s ! i)"
  let ?p = "fst (wrapper groupId args s)"
  let ?s1 = "snd (wrapper groupId args s)"
  let ?s2 = "run evs ?s1"
  have inv: "invar s" unfolding assms(1) using invar_initial by (rule invar_run)
  from assms(2) have i: "i < length (invocations s)" and pend: "inv_pending (invocations s ! i)"
    and g: "inv_groupId (invocations s ! i) = groupId"
    by (simp_all add: inFlight_def)
  have d: "defers s groupId = Some ?a" using invarD(1) [OF inv i pend] g by simp
  note wj = wrapper_joins [OF d, of args]
  have same: "invocations ?s1 = invocations s" by (simp add: wj)
  have inv1: "invar ?s1" using inv by (rule invar_wrapper)
  have fl1: "inFlight ?s1 i groupId" using assms(2) by (simp add: inFlight_def same)
  have a1: "inv_newWaiting (invocations ?s1 ! i) = ?a" by (simp add: same)
  have mem: "w \<in> set (arrays ?s1 (inv_newWaiting (invocations ?s1 ! i)))"
    if "w = ?p \<or> w \<in> set (arrays s ?a)" for w
    using that unfolding a1 by (auto simp: wj)
  have inv2: "invar ?s2" using inv1 by (rule invar_run)
  have at2: "inFlight ?s2 i groupId \<and>
      w \<in> set (arrays ?s2 (inv_newWaiting (invocations ?s2 ! i)))"
    if "w = ?p \<or> w \<in> set (arrays s ?a)" for w
    using run_keeps_in_flight [OF inv1 fl1 mem [OF that] assms(3)] by simp
  have fl2: "inFlight ?s2 i groupId" using at2 [of ?p] by simp
  have "promises ?s2 ?p = None"
    using settle_delivers(1) [OF inv2 fl2] at2 [of ?p] by simp
  moreover have "promises (settle i outcome ?s2) ?p = Some outcome"
    using settle_delivers(2) [OF inv2 fl2] at2 [of ?p] by simp
  moreover have "\<forall>w \<in> set (arrays s ?a). promises (settle i outcome ?s2) w = Some outcome"
    using settle_delivers(2) [OF inv2 fl2] at2 by blast
  moreover have "defers (settle i outcome ?s2) groupId = None"
    using settle_delivers(3) [OF inv2 fl2, of ?p outcome] at2 [of ?p] by simp
  then have "invocations (snd (wrapper groupId args' (settle i outcome ?s2))) =
      invocations (settle i outcome ?s2) @
      [\<lparr> inv_args = args', inv_groupId = groupId,
         inv_newWaiting = nextArray (settle i outcome ?s2), inv_pending = True \<rparr>]"
    by (simp add: wrapper_invokes)
  ultimately show ?thesis using same by blast
qed

text \<open>The theorem at a wrapper with one call in flight for the group \<open>probe\<close>.\<close>

theorem deferGets_joins_call_in_flight_witness:
  "deferExample = run [Call ''probe'' 1] initialState \<and>
   inFlight deferExample 0 ''probe'' \<and>
   \<not> list_ex (isSettleOf 0) [Call ''other'' 2, Call ''probe'' 3] \<and>
   invocations (snd (wrapper ''probe'' 5 deferExample)) = invocations deferExample \<and>
   length (invocations deferExample) = 1 \<and>
   fst (wrapper ''probe'' 5 deferExample) = 1 \<and>
   promises (run [Call ''other'' 2, Call ''probe'' 3] (snd (wrapper ''probe'' 5 deferExample))) 1 = None \<and>
   promises (settle 0 (Resolved 42)
     (run [Call ''other'' 2, Call ''probe'' 3] (snd (wrapper ''probe'' 5 deferExample)))) 1 =
     Some (Resolved 42) \<and>
   promises (settle 0 (Resolved 42)
     (run [Call ''other'' 2, Call ''probe'' 3] (snd (wrapper ''probe'' 5 deferExample)))) 0 =
     Some (Resolved 42) \<and>
   map inv_args (invocations (snd (wrapper ''probe'' 7
     (settle 0 (Resolved 42)
       (run [Call ''other'' 2, Call ''probe'' 3] (snd (wrapper ''probe'' 5 deferExample))))))) =
     [1, 2, 7]"
proof -
  let ?evs = "[Call ''other'' 2, Call ''probe'' 3] :: (nat, nat, string) event list"
  let ?out = "Resolved 42 :: (nat, string) settled"
  have h1: "deferExample = run [Call ''probe'' 1] initialState"
    by (simp add: deferExample_def)
  have ex: "deferExample =
      \<lparr> arrays = (\<lambda>a. [])(0 := [0]), nextArray = 1,
        defers = (\<lambda>g. None)(''probe'' := Some 0),
        invocations = [\<lparr> inv_args = 1, inv_groupId = ''probe'', inv_newWaiting = 0,
                         inv_pending = True \<rparr>],
        promises = (\<lambda>p. None)(0 := None), nextPromise = 1 \<rparr>"
    by (simp add: deferExample_def run_def wrapper_def initialState_def Let_def)
  have h2: "inFlight deferExample 0 ''probe''"
    by (simp add: ex inFlight_def)
  have h3: "\<not> list_ex (isSettleOf 0) ?evs"
    by simp
  have p: "fst (wrapper ''probe'' 5 deferExample) = 1"
    by (simp add: ex wrapper_def Let_def)
  have m: "0 \<in> set (arrays deferExample (inv_newWaiting (invocations deferExample ! 0)))"
    by (simp add: ex)
  have n: "length (invocations deferExample) = 1" by (simp add: ex)
  have l: "map inv_args (invocations (settle 0 ?out (run ?evs (snd (wrapper ''probe'' 5 deferExample))))) = [1, 2]"
    by (simp add: ex run_def wrapper_def settle_def Let_def)
  from deferGets_joins_call_in_flight [OF h1 h2 h3, of 5 ?out 7] h1 h2 h3 p m n l
  show ?thesis
    by simp
qed

section \<open>Properties of promiseTimeout\<close>

lemma timerDelay_in_range:
  "1 \<le> timeoutTime \<Longrightarrow> timeoutTime \<le> 2147483647 \<Longrightarrow> timerDelay timeoutTime = nat timeoutTime"
  by (simp add: timerDelay_def TIMEOUT_MAX_def)

lemma promiseTimeout_p_first:
  assumes "d < timerDelay timeoutTime + lateness \<or> (d = timerDelay timeoutTime + lateness \<and> pFirst)"
  shows "result (promiseTimeout (SettlesAfter d outcome) timeoutTime timeoutMessage lateness pFirst
           startTime) =
         Some (startTime + d,
               case outcome of Resolved v \<Rightarrow> Resolved v | Rejected e \<Rightarrow> Rejected (Cause e))"
  using assms
  by (auto simp: promiseTimeout_def schedule_def pCallbacks_def settleResult_def Let_def
      split: settled.splits)

lemma promiseTimeout_timer_first:
  assumes "p = Never \<or>
           (\<exists>d outcome. p = SettlesAfter d outcome \<and>
              (timerDelay timeoutTime + lateness < d \<or>
               (d = timerDelay timeoutTime + lateness \<and> \<not> pFirst)))"
    and "timeoutText timeoutMessage (timerDelay timeoutTime + lateness) = Some msg"
  shows "result (promiseTimeout p timeoutTime timeoutMessage lateness pFirst startTime) =
         Some (startTime + (timerDelay timeoutTime + lateness), Rejected (TimeoutMessage msg))"
  using assms
  by (cases p)
     (auto simp: promiseTimeout_def schedule_def pCallbacks_def timerCallback_def
      settleResult_def Let_def split: settled.splits)

text \<open>
  C9, as the code has it. Let \<^verbatim>\<open>timeoutTime\<close> be from 1 to 2147483647, so that
  \<^verbatim>\<open>setTimeout\<close> keeps it, and let the timer's callback run \<^verbatim>\<open>timeoutTime\<close> after the
  call or later, as the event loop has it. If \<^verbatim>\<open>p\<close> resolves before the callback runs,
  the new promise resolves with \<^verbatim>\<open>p\<close>'s value, then; if \<^verbatim>\<open>p\<close> rejects before that, it
  rejects with \<^verbatim>\<open>p\<close>'s reason. Otherwise the callback runs first, and unless the
  message is a function that throws, the new promise rejects then, with the message
  given (or the one the message function returns for the time passed), and with
  \<^verbatim>\<open>'Timeout'\<close> when no message or an empty one is given. With such a message the new
  promise settles in every case, no later than the run of the timer's callback, which
  is never before \<^verbatim>\<open>timeoutTime\<close> has passed.
\<close>

theorem promiseTimeout_outcome:
  assumes "1 \<le> timeoutTime" and "timeoutTime \<le> 2147483647"
    and "timerRuns = nat timeoutTime + lateness"
  shows
  "(p = SettlesAfter d (Resolved v) \<and> (d < timerRuns \<or> (d = timerRuns \<and> pFirst)) \<longrightarrow>
      result (promiseTimeout p timeoutTime timeoutMessage lateness pFirst startTime) =
        Some (startTime + d, Resolved v)) \<and>
   (p = SettlesAfter d (Rejected e) \<and> (d < timerRuns \<or> (d = timerRuns \<and> pFirst)) \<longrightarrow>
      result (promiseTimeout p timeoutTime timeoutMessage lateness pFirst startTime) =
        Some (startTime + d, Rejected (Cause e))) \<and>
   (timeoutText timeoutMessage timerRuns = Some msg \<longrightarrow>
      (p = Never \<or>
       (\<exists>d' outcome. p = SettlesAfter d' outcome \<and>
          (timerRuns < d' \<or> (d' = timerRuns \<and> \<not> pFirst))) \<longrightarrow>
         result (promiseTimeout p timeoutTime timeoutMessage lateness pFirst startTime) =
           Some (startTime + timerRuns, Rejected (TimeoutMessage msg))) \<and>
      (\<exists>at outcome.
         result (promiseTimeout p timeoutTime timeoutMessage lateness pFirst startTime) =
           Some (at, outcome) \<and>
         at \<le> startTime + timerRuns) \<and>
      (timeoutMessage = NoMessage \<longrightarrow> msg = ''Timeout'') \<and>
      (timeoutMessage = Message m \<and> m \<noteq> [] \<longrightarrow> msg = m) \<and>
      (timeoutMessage = MessageFunction f \<and> f timerRuns = Some m \<and> m \<noteq> [] \<longrightarrow> msg = m) \<and>
      (timeoutMessage = Message [] \<or>
       (timeoutMessage = MessageFunction f \<and> f timerRuns = Some []) \<longrightarrow> msg = ''Timeout'')) \<and>
   nat timeoutTime \<le> timerRuns"
proof -
  have r: "timerRuns = timerDelay timeoutTime + lateness"
    using assms(1-3) by (simp add: timerDelay_in_range)
  have pf: "result (promiseTimeout (SettlesAfter d' outcome) timeoutTime timeoutMessage lateness
                 pFirst startTime) =
            Some (startTime + d',
                  case outcome of Resolved v \<Rightarrow> Resolved v | Rejected e \<Rightarrow> Rejected (Cause e))"
    if "d' < timerRuns \<or> (d' = timerRuns \<and> pFirst)" for d' outcome
    using that unfolding r by (rule promiseTimeout_p_first)
  have c1: "p = SettlesAfter d (Resolved v) \<and> (d < timerRuns \<or> (d = timerRuns \<and> pFirst)) \<longrightarrow>
      result (promiseTimeout p timeoutTime timeoutMessage lateness pFirst startTime) =
        Some (startTime + d, Resolved v)"
    using pf [of d "Resolved v"] by auto
  have c2: "p = SettlesAfter d (Rejected e) \<and> (d < timerRuns \<or> (d = timerRuns \<and> pFirst)) \<longrightarrow>
      result (promiseTimeout p timeoutTime timeoutMessage lateness pFirst startTime) =
        Some (startTime + d, Rejected (Cause e))"
    using pf [of d "Rejected e"] by auto
  have c3: "(p = Never \<or>
       (\<exists>d' outcome. p = SettlesAfter d' outcome \<and>
          (timerRuns < d' \<or> (d' = timerRuns \<and> \<not> pFirst))) \<longrightarrow>
         result (promiseTimeout p timeoutTime timeoutMessage lateness pFirst startTime) =
           Some (startTime + timerRuns, Rejected (TimeoutMessage msg))) \<and>
      (\<exists>at outcome.
         result (promiseTimeout p timeoutTime timeoutMessage lateness pFirst startTime) =
           Some (at, outcome) \<and>
         at \<le> startTime + timerRuns) \<and>
      (timeoutMessage = NoMessage \<longrightarrow> msg = ''Timeout'') \<and>
      (timeoutMessage = Message m \<and> m \<noteq> [] \<longrightarrow> msg = m) \<and>
      (timeoutMessage = MessageFunction f \<and> f timerRuns = Some m \<and> m \<noteq> [] \<longrightarrow> msg = m) \<and>
      (timeoutMessage = Message [] \<or>
       (timeoutMessage = MessageFunction f \<and> f timerRuns = Some []) \<longrightarrow> msg = ''Timeout'')"
    if t: "timeoutText timeoutMessage timerRuns = Some msg"
  proof -
    have tf: "result (promiseTimeout p timeoutTime timeoutMessage lateness pFirst startTime) =
              Some (startTime + timerRuns, Rejected (TimeoutMessage msg))"
      if "p = Never \<or>
          (\<exists>d' outcome. p = SettlesAfter d' outcome \<and>
             (timerRuns < d' \<or> (d' = timerRuns \<and> \<not> pFirst)))"
      using that t unfolding r by (rule promiseTimeout_timer_first)
    have b: "\<exists>at outcome.
        result (promiseTimeout p timeoutTime timeoutMessage lateness pFirst startTime) =
          Some (at, outcome) \<and>
        at \<le> startTime + timerRuns"
    proof (cases p)
      case Never
      with tf show ?thesis by simp
    next
      case (SettlesAfter d' outcome)
      show ?thesis
      proof (cases "d' < timerRuns \<or> (d' = timerRuns \<and> pFirst)")
        case True
        with pf [of d' outcome] SettlesAfter show ?thesis by auto
      next
        case False
        then have "timerRuns < d' \<or> (d' = timerRuns \<and> \<not> pFirst)" by auto
        with tf SettlesAfter show ?thesis by auto
      qed
    qed
    have ms: "(timeoutMessage = NoMessage \<longrightarrow> msg = ''Timeout'') \<and>
      (timeoutMessage = Message m \<and> m \<noteq> [] \<longrightarrow> msg = m) \<and>
      (timeoutMessage = MessageFunction f \<and> f timerRuns = Some m \<and> m \<noteq> [] \<longrightarrow> msg = m) \<and>
      (timeoutMessage = Message [] \<or>
       (timeoutMessage = MessageFunction f \<and> f timerRuns = Some []) \<longrightarrow> msg = ''Timeout'')"
      using t by (auto simp: timeoutText_def)
    have tf': "p = Never \<or>
       (\<exists>d' outcome. p = SettlesAfter d' outcome \<and>
          (timerRuns < d' \<or> (d' = timerRuns \<and> \<not> pFirst))) \<longrightarrow>
         result (promiseTimeout p timeoutTime timeoutMessage lateness pFirst startTime) =
           Some (startTime + timerRuns, Rejected (TimeoutMessage msg))"
      by (rule impI) (rule tf)
    show ?thesis by (rule conjI [OF tf' conjI [OF b ms]])
  qed
  have c5: "nat timeoutTime \<le> timerRuns" using assms(3) by simp
  show ?thesis
    by (rule conjI [OF c1 conjI [OF c2 conjI [OF impI [OF c3] c5]]])
qed

text \<open>The theorem at a timer set for 10 ms whose callback runs 1 ms late: at a promise that
  resolves before, one that rejects before, one that resolves too late, one that never
  settles, and one that resolves at the very time the callback is run, ahead of it.\<close>

theorem promiseTimeout_outcome_witness:
  "result (promiseTimeout (SettlesAfter 3 (Resolved (7::nat)) :: (nat, string) behaviour) 10
             (Message ''too slow'') 1 True 100) =
     Some (103, Resolved 7) \<and>
   result (promiseTimeout (SettlesAfter 3 (Rejected ''boom'') :: (nat, string) behaviour) 10
             (Message ''too slow'') 1 True 100) =
     Some (103, Rejected (Cause ''boom'')) \<and>
   result (promiseTimeout (SettlesAfter 30 (Resolved (7::nat)) :: (nat, string) behaviour) 10
             (Message ''too slow'') 1 True 100) =
     Some (111, Rejected (TimeoutMessage ''too slow'')) \<and>
   result (promiseTimeout (Never :: (nat, string) behaviour) 10 NoMessage 1 True 100) =
     Some (111, Rejected (TimeoutMessage ''Timeout'')) \<and>
   result (promiseTimeout (SettlesAfter 11 (Resolved (7::nat)) :: (nat, string) behaviour) 10
             (MessageFunction (\<lambda>d. None)) 1 True 100) =
     Some (111, Resolved 7) \<and>
   result (promiseTimeout (SettlesAfter 11 (Resolved (7::nat)) :: (nat, string) behaviour) 10
             (MessageFunction (\<lambda>d. Some ''late'')) 1 False 100) =
     Some (111, Rejected (TimeoutMessage ''late''))"
proof -
  have a: "(1::int) \<le> 10" "(10::int) \<le> 2147483647" "(11::nat) = nat 10 + 1" by simp_all
  have m: "timeoutText (Message ''too slow'') 11 = Some ''too slow''"
    "timeoutText NoMessage 11 = Some ''Timeout''"
    "timeoutText (MessageFunction (\<lambda>d. Some ''late'')) 11 = Some ''late''"
    by (simp_all add: timeoutText_def)
  note t1 = promiseTimeout_outcome
    [where p = "SettlesAfter 3 (Resolved (7::nat)) :: (nat, string) behaviour" and d = 3 and v = 7
       and timeoutMessage = "Message ''too slow''" and pFirst = True and startTime = 100, OF a]
  note t2 = promiseTimeout_outcome
    [where p = "SettlesAfter 3 (Rejected ''boom'') :: (nat, string) behaviour" and d = 3
       and e = "''boom''" and timeoutMessage = "Message ''too slow''" and pFirst = True
       and startTime = 100, OF a]
  note t3 = promiseTimeout_outcome
    [where p = "SettlesAfter 30 (Resolved (7::nat)) :: (nat, string) behaviour"
       and timeoutMessage = "Message ''too slow''" and msg = "''too slow''" and pFirst = True
       and startTime = 100, OF a]
  note t4 = promiseTimeout_outcome
    [where p = "Never :: (nat, string) behaviour" and timeoutMessage = NoMessage
       and msg = "''Timeout''" and pFirst = True and startTime = 100, OF a]
  note t5 = promiseTimeout_outcome
    [where p = "SettlesAfter 11 (Resolved (7::nat)) :: (nat, string) behaviour" and d = 11
       and v = 7 and timeoutMessage = "MessageFunction (\<lambda>d. None)" and pFirst = True
       and startTime = 100, OF a]
  note t6 = promiseTimeout_outcome
    [where p = "SettlesAfter 11 (Resolved (7::nat)) :: (nat, string) behaviour"
       and timeoutMessage = "MessageFunction (\<lambda>d. Some ''late'')" and msg = "''late''"
       and pFirst = False and startTime = 100, OF a]
  have w1: "result (promiseTimeout (SettlesAfter 3 (Resolved (7::nat)) :: (nat, string) behaviour)
                 10 (Message ''too slow'') 1 True 100) = Some (103, Resolved 7)"
    using t1 by simp
  have w2: "result (promiseTimeout (SettlesAfter 3 (Rejected ''boom'') :: (nat, string) behaviour)
                 10 (Message ''too slow'') 1 True 100) = Some (103, Rejected (Cause ''boom''))"
    using t2 by simp
  have w3: "result (promiseTimeout (SettlesAfter 30 (Resolved (7::nat)) :: (nat, string) behaviour)
                 10 (Message ''too slow'') 1 True 100) =
              Some (111, Rejected (TimeoutMessage ''too slow''))"
    using t3 m(1) by simp
  have w4: "result (promiseTimeout (Never :: (nat, string) behaviour) 10 NoMessage 1 True 100) =
              Some (111, Rejected (TimeoutMessage ''Timeout''))"
    using t4 m(2) by simp
  have w5: "result (promiseTimeout (SettlesAfter 11 (Resolved (7::nat)) :: (nat, string) behaviour)
                 10 (MessageFunction (\<lambda>d. None)) 1 True 100) = Some (111, Resolved 7)"
    using t5 by simp
  have w6: "result (promiseTimeout (SettlesAfter 11 (Resolved (7::nat)) :: (nat, string) behaviour)
                 10 (MessageFunction (\<lambda>d. Some ''late'')) 1 False 100) =
              Some (111, Rejected (TimeoutMessage ''late''))"
    using t6 m(3) by simp
  from w1 w2 w3 w4 w5 w6 show ?thesis by simp
qed

text \<open>C9 as stated fails for the empty message: the message given is the empty string
  and the rejection is \<^verbatim>\<open>'Timeout'\<close>.\<close>

theorem promiseTimeout_empty_message_counterexample:
  "result (promiseTimeout (Never :: (nat, string) behaviour) 10 (Message []) 0 True 100) =
     Some (110, Rejected (TimeoutMessage ''Timeout'')) \<and>
   TimeoutMessage ''Timeout'' \<noteq> (TimeoutMessage [] :: string rejection)"
  by (simp add: promiseTimeout_def schedule_def timerCallback_def settleResult_def
      timeoutText_def timerDelay_def TIMEOUT_MAX_def)

text \<open>What \<^verbatim>\<open>promiseTimeout\<close> does outside the hypotheses of the theorem. A
  \<^verbatim>\<open>timeoutTime\<close> above 2147483647 sets the timer for 1 ms: a promise that resolves after
  30 ms is timed out. A message function that throws leaves the new promise pending
  when \<^verbatim>\<open>p\<close> never settles.\<close>

lemma promiseTimeout_delay_out_of_range:
  "result (promiseTimeout (SettlesAfter 30 (Resolved (7::nat)) :: (nat, string) behaviour)
             2147483648 NoMessage 0 True 100) =
     Some (101, Rejected (TimeoutMessage ''Timeout''))"
  by (simp add: promiseTimeout_def schedule_def pCallbacks_def timerCallback_def
      settleResult_def timeoutText_def timerDelay_def TIMEOUT_MAX_def)

lemma promiseTimeout_message_function_throws:
  "promiseTimeout (Never :: (nat, string) behaviour) 10 (MessageFunction (\<lambda>d. None)) 0 True 100 =
     \<lparr> result = None, timerSet = False, uncaught = True \<rparr>"
  by (simp add: promiseTimeout_def schedule_def timerCallback_def settleResult_def
      timeoutText_def timerDelay_def TIMEOUT_MAX_def)

section \<open>Properties of the accessors\<close>

text \<open>
  C10. Every accessor of type HTTP has \<^verbatim>\<open>allowWrite = false\<close>; an accessor reached over
  HTTP that allows writing is of type HTTP_PROXY, and there is such an accessor.
\<close>

theorem http_accessor_never_writable:
  "(accessorType a = HTTP \<longrightarrow> \<not> accessorAllowWrite a) \<and>
   (accessorAllowWrite a \<and> (accessorType a = HTTP \<or> accessorType a = HTTP_PROXY) \<longrightarrow>
      accessorType a = HTTP_PROXY) \<and>
   accessorType (AnyHTTPProxy exampleHTTPProxy) = HTTP_PROXY \<and>
   accessorAllowWrite (AnyHTTPProxy exampleHTTPProxy)"
proof -
  have l: "literalValue x = False" for x by (cases x) simp
  show ?thesis by (cases a) (simp_all add: l exampleHTTPProxy_def)
qed

text \<open>The theorem at the HTTP accessor of the debug file and at a writable proxy.\<close>

theorem http_accessor_never_writable_witness:
  "accessorType (AnyHTTP exampleHTTP) = HTTP \<and>
   \<not> accessorAllowWrite (AnyHTTP exampleHTTP) \<and>
   accessorAllowWrite (AnyHTTPProxy exampleHTTPProxy) \<and>
   accessorType (AnyHTTPProxy exampleHTTPProxy) = HTTP_PROXY"
proof -
  have t: "accessorType (AnyHTTP exampleHTTP) = HTTP" by simp
  from http_accessor_never_writable [of "AnyHTTP exampleHTTP"]
    http_accessor_never_writable [of "AnyHTTPProxy exampleHTTPProxy"] t
  show ?thesis by simp
qed

end
